theory Spec2Isabelle
  imports Main "HOL-Library.Char_ord" "HOL-Library.Sublist"
begin

section \<open>JavaScript values used throughout\<close>

text \<open>
  A JavaScript string that may be \<open>null\<close> or \<open>undefined\<close> is a \<open>string option\<close>.
  The empty string is falsy: \<open>x || null\<close> yields \<open>null\<close> for \<open>null\<close>, \<open>undefined\<close>
  and \<open>""\<close> alike.
\<close>

definition js_or_null :: "string option \<Rightarrow> string option" where
  "js_or_null x = (case x of None \<Rightarrow> None | Some s \<Rightarrow> (if s = [] then None else Some s))"

text \<open>\<open>a || b\<close> on possibly-null strings.\<close>

definition js_or :: "string option \<Rightarrow> string option \<Rightarrow> string option" where
  "js_or a b = (case js_or_null a of Some s \<Rightarrow> Some s | None \<Rightarrow> b)"

section \<open>Loop guard (src/safety/loop-guard.js)\<close>

text \<open>
  \<open>recentWrites\<close> is a \<open>Map\<close> from a key (a file path or \<open>sheet:<id>\<close>) to
  \<open>{hash, timestamp}\<close>. The MD5 digest comes from Node's \<open>crypto\<close> module and the time
  from \<open>Date.now()\<close>; both are parameters (\<open>H\<close> and \<open>now\<close>, in milliseconds).
\<close>

record write_record =
  hash :: string
  timestamp :: int

record loop_guard =
  recentWrites :: "string \<rightharpoonup> write_record"
  ttl :: int

text \<open>The constructor: \<open>this.ttl = options.ttl || 2000\<close> (0 and a missing option give 2000).\<close>

definition new_LoopGuard :: "int option \<Rightarrow> loop_guard" where
  "new_LoopGuard opt_ttl =
     \<lparr>recentWrites = Map.empty,
      ttl = (case opt_ttl of None \<Rightarrow> 2000 | Some t \<Rightarrow> (if t = 0 then 2000 else t))\<rparr>"

definition registerWrite ::
  "(string \<Rightarrow> string) \<Rightarrow> int \<Rightarrow> loop_guard \<Rightarrow> string \<Rightarrow> string \<Rightarrow> loop_guard" where
  "registerWrite H now g filePath content =
     g\<lparr>recentWrites := (recentWrites g)(filePath \<mapsto> \<lparr>hash = H content, timestamp = now\<rparr>)\<rparr>"

text \<open>
  \<open>shouldIgnore\<close> returns the boolean and the guard after the call: an entry found
  expired is deleted on the way.
\<close>

definition shouldIgnore ::
  "(string \<Rightarrow> string) \<Rightarrow> int \<Rightarrow> loop_guard \<Rightarrow> string \<Rightarrow> string \<Rightarrow> bool \<times> loop_guard" where
  "shouldIgnore H now g filePath content =
     (case recentWrites g filePath of
        None \<Rightarrow> (False, g)
      | Some record \<Rightarrow>
          if now - timestamp record > ttl g
          then (False, g\<lparr>recentWrites := (recentWrites g)(filePath := None)\<rparr>)
          else (hash record = H content, g))"

definition sheet_key :: "string \<Rightarrow> string" where
  "sheet_key styleSheetId = ''sheet:'' @ styleSheetId"

definition registerStyleSheetWrite ::
  "(string \<Rightarrow> string) \<Rightarrow> int \<Rightarrow> loop_guard \<Rightarrow> string \<Rightarrow> string \<Rightarrow> loop_guard" where
  "registerStyleSheetWrite H now g styleSheetId content =
     g\<lparr>recentWrites :=
         (recentWrites g)(sheet_key styleSheetId \<mapsto> \<lparr>hash = H content, timestamp = now\<rparr>)\<rparr>"

definition shouldIgnoreStyleSheet ::
  "(string \<Rightarrow> string) \<Rightarrow> int \<Rightarrow> loop_guard \<Rightarrow> string \<Rightarrow> string \<Rightarrow> bool \<times> loop_guard" where
  "shouldIgnoreStyleSheet H now g styleSheetId content =
     shouldIgnore H now g (sheet_key styleSheetId) content"

text \<open>The background sweep: every entry older than the TTL is dropped.\<close>

definition cleanup :: "int \<Rightarrow> loop_guard \<Rightarrow> loop_guard" where
  "cleanup now g =
     g\<lparr>recentWrites :=
         (\<lambda>k. case recentWrites g k of
                None \<Rightarrow> None
              | Some record \<Rightarrow> (if now - timestamp record > ttl g then None else Some record))\<rparr>"

section \<open>Stylesheet registry (src/cdp/registry.js)\<close>

record header =
  styleSheetId :: string
  sourceURL :: "string option"
  isInline :: bool
  sourceMapURL :: "string option"

record sheet =
  sheet_header :: header
  sheet_text :: "string option"
  lastModified :: "int option"
  viteDevId :: "string option"
  originalSource :: "string option"

type_synonym registry = "string \<rightharpoonup> sheet"

definition register :: "registry \<Rightarrow> header \<Rightarrow> registry" where
  "register sheets h =
     (case sheets (styleSheetId h) of
        Some s \<Rightarrow> sheets
      | None \<Rightarrow> sheets(styleSheetId h \<mapsto>
          \<lparr>sheet_header = h, sheet_text = None, lastModified = None,
           viteDevId = None, originalSource = None\<rparr>))"

definition updateText :: "int \<Rightarrow> registry \<Rightarrow> string \<Rightarrow> string \<Rightarrow> registry" where
  "updateText now sheets sid txt =
     (case sheets sid of
        None \<Rightarrow> sheets
      | Some s \<Rightarrow> sheets(sid \<mapsto> s\<lparr>sheet_text := Some txt, lastModified := Some now\<rparr>))"

text \<open>\<open>return sheet?.text || null\<close>\<close>

definition getPreviousText :: "registry \<Rightarrow> string \<Rightarrow> string option" where
  "getPreviousText sheets sid =
     (case sheets sid of None \<Rightarrow> None | Some s \<Rightarrow> js_or_null (sheet_text s))"

text \<open>\<open>return sheet?.viteDevId || sheet?.header?.sourceURL || null\<close>\<close>

definition getSourceURL :: "registry \<Rightarrow> string \<Rightarrow> string option" where
  "getSourceURL sheets sid =
     (case sheets sid of
        None \<Rightarrow> None
      | Some s \<Rightarrow> js_or (viteDevId s) (js_or_null (sourceURL (sheet_header s))))"

definition setViteDevId :: "registry \<Rightarrow> string \<Rightarrow> string \<Rightarrow> registry" where
  "setViteDevId sheets sid v =
     (case sheets sid of None \<Rightarrow> sheets | Some s \<Rightarrow> sheets(sid \<mapsto> s\<lparr>viteDevId := Some v\<rparr>))"

definition getViteDevId :: "registry \<Rightarrow> string \<Rightarrow> string option" where
  "getViteDevId sheets sid =
     (case sheets sid of None \<Rightarrow> None | Some s \<Rightarrow> js_or_null (viteDevId s))"

definition setOriginalSource :: "registry \<Rightarrow> string \<Rightarrow> string \<Rightarrow> registry" where
  "setOriginalSource sheets sid p =
     (case sheets sid of None \<Rightarrow> sheets | Some s \<Rightarrow> sheets(sid \<mapsto> s\<lparr>originalSource := Some p\<rparr>))"

definition getOriginalSource :: "registry \<Rightarrow> string \<Rightarrow> string option" where
  "getOriginalSource sheets sid =
     (case sheets sid of None \<Rightarrow> None | Some s \<Rightarrow> js_or_null (originalSource s))"

section \<open>The postcss syntax tree\<close>

text \<open>
  postcss is a library outside the repository: its parser is a parameter
  \<open>parse :: string \<Rightarrow> string node list option\<close>, \<open>None\<close> when it throws
  \<open>CssSyntaxError\<close>. What the code reads of the tree is modelled: a declaration
  (\<open>prop\<close>, \<open>value\<close>, \<open>important\<close>, \<open>source.start\<close> and \<open>source.end\<close> as
  (line, column) pairs when present), a rule with its selector and children, an at-rule
  with its name and children, a comment. The value type is a parameter of the tree: the
  parser yields strings, the patchers may store \<open>undefined\<close>.
\<close>

type_synonym position = "int \<times> int"

datatype 'v node =
    Decl string 'v bool "(position \<times> position option) option"
  | Rule string "'v node list"
  | AtRule string "'v node list"
  | Comment string

text \<open>
  \<open>root.walkDecls(cb)\<close> visits every declaration in document order, at any depth. Each
  one is returned with the selector the callback computes from its parent:
  \<open>rule.selector || rule.name || '(unknown)'\<close> (the root has neither).
\<close>

definition parent_name :: "string \<Rightarrow> string" where
  "parent_name s = (if s = [] then ''(unknown)'' else s)"

fun walkDecls ::
  "string \<Rightarrow> 'v node list \<Rightarrow> (string \<times> string \<times> 'v \<times> bool \<times> (position \<times> position option) option) list"
  where
  "walkDecls par [] = []"
| "walkDecls par (Decl p v i src # ns) = (par, p, v, i, src) # walkDecls par ns"
| "walkDecls par (Rule sel kids # ns) = walkDecls (parent_name sel) kids @ walkDecls par ns"
| "walkDecls par (AtRule name kids # ns) = walkDecls (parent_name name) kids @ walkDecls par ns"
| "walkDecls par (Comment c # ns) = walkDecls par ns"

section \<open>Declaration differ (src/diff/css-parser.js)\<close>

record css_decl =
  decl_selector :: string
  decl_prop :: string
  decl_value :: string
  decl_important :: bool
  decl_start :: position
  decl_end :: "position option"

text \<open>
  \<open>parseDeclarations\<close>: the \<open>try\<close> around the parse catches the syntax error, logs it
  and falls through to \<open>return declarations\<close>, which is still empty. A declaration
  without \<open>source.start\<close> is skipped; postcss columns are 1-based, the result's 0-based.
\<close>

definition to_declaration ::
  "string \<times> string \<times> string \<times> bool \<times> (position \<times> position option) option \<Rightarrow> css_decl option"
  where
  "to_declaration x =
     (case x of (sel, p, v, i, src) \<Rightarrow>
        (case src of
           None \<Rightarrow> None
         | Some (st, en) \<Rightarrow>
             Some \<lparr>decl_selector = sel, decl_prop = p, decl_value = v, decl_important = i,
                   decl_start = (fst st, snd st - 1),
                   decl_end = (case en of None \<Rightarrow> None | Some e \<Rightarrow> Some (fst e, snd e - 1))\<rparr>))"

definition parseDeclarations ::
  "(string \<Rightarrow> string node list option) \<Rightarrow> string \<Rightarrow> css_decl list" where
  "parseDeclarations parse cssText =
     (case parse cssText of
        None \<Rightarrow> []
      | Some root \<Rightarrow> List.map_filter to_declaration (walkDecls ''(unknown)'' root))"

text \<open>
  The two \<open>Map\<close>s from \<open>`${selector}|${prop}`\<close> to the list of declarations under that
  key. A JavaScript \<open>Map\<close> iterates in insertion order: an association list, a new key
  appended at the end, a known key's list extended in place.
\<close>

definition decl_key :: "css_decl \<Rightarrow> string" where
  "decl_key d = decl_selector d @ ''|'' @ decl_prop d"

fun declMap_push ::
  "string \<Rightarrow> css_decl \<Rightarrow> (string \<times> css_decl list) list \<Rightarrow> (string \<times> css_decl list) list"
  where
  "declMap_push key d [] = [(key, [d])]"
| "declMap_push key d ((k, l) # m) =
     (if k = key then (k, l @ [d]) # m else (k, l) # declMap_push key d m)"

definition declMap :: "css_decl list \<Rightarrow> (string \<times> css_decl list) list" where
  "declMap ds = foldl (\<lambda>m d. declMap_push (decl_key d) d m) [] ds"

text \<open>\<open>map.get(key) || []\<close>\<close>

definition declMap_get :: "(string \<times> css_decl list) list \<Rightarrow> string \<Rightarrow> css_decl list" where
  "declMap_get m key = (case map_of m key of None \<Rightarrow> [] | Some l \<Rightarrow> l)"

record change =
  ch_type :: string
  ch_selector :: string
  ch_prop :: string
  oldValue :: "string option"
  newValue :: "string option"
  ch_important :: bool
  ch_position :: position
  originalSelector :: "string option"

text \<open>\<open>value + (important ? ' !important' : '')\<close>\<close>

definition with_important :: "css_decl \<Rightarrow> string" where
  "with_important d = decl_value d @ (if decl_important d then '' !important'' else [])"

definition add_change :: "css_decl \<Rightarrow> change" where
  "add_change newDecl =
     \<lparr>ch_type = ''add'', ch_selector = decl_selector newDecl, ch_prop = decl_prop newDecl,
      oldValue = None, newValue = Some (decl_value newDecl),
      ch_important = decl_important newDecl, ch_position = decl_start newDecl,
      originalSelector = None\<rparr>"

definition modify_change :: "css_decl \<Rightarrow> css_decl \<Rightarrow> change" where
  "modify_change oldDecl newDecl =
     \<lparr>ch_type = ''change'', ch_selector = decl_selector newDecl, ch_prop = decl_prop newDecl,
      oldValue = Some (with_important oldDecl), newValue = Some (with_important newDecl),
      ch_important = decl_important newDecl, ch_position = decl_start newDecl,
      originalSelector = None\<rparr>"

definition delete_change :: "css_decl \<Rightarrow> change" where
  "delete_change oldDecl =
     \<lparr>ch_type = ''delete'', ch_selector = decl_selector oldDecl, ch_prop = decl_prop oldDecl,
      oldValue = Some (decl_value oldDecl), newValue = None,
      ch_important = False, ch_position = decl_start oldDecl,
      originalSelector = None\<rparr>"

text \<open>
  The body of the first loop for one index \<open>i\<close> of one key: \<open>oldDeclList[i]\<close> is
  \<open>undefined\<close> past the end of the old list.
\<close>

definition changed_at :: "css_decl list \<Rightarrow> css_decl list \<Rightarrow> nat \<Rightarrow> change list" where
  "changed_at oldDeclList newDeclList i =
     (if length oldDeclList \<le> i then [add_change (newDeclList ! i)]
      else if decl_value (oldDeclList ! i) \<noteq> decl_value (newDeclList ! i)
              \<or> decl_important (oldDeclList ! i) \<noteq> decl_important (newDeclList ! i)
           then [modify_change (oldDeclList ! i) (newDeclList ! i)]
           else [])"

definition changed_in ::
  "(string \<times> css_decl list) list \<Rightarrow> string \<times> css_decl list \<Rightarrow> change list" where
  "changed_in oldDeclMap e =
     (case e of (key, newDeclList) \<Rightarrow>
        concat (map (changed_at (declMap_get oldDeclMap key) newDeclList)
                    [0 ..< length newDeclList]))"

definition deleted_in ::
  "(string \<times> css_decl list) list \<Rightarrow> string \<times> css_decl list \<Rightarrow> change list" where
  "deleted_in newDeclMap e =
     (case e of (key, oldDeclList) \<Rightarrow>
        map (\<lambda>i. delete_change (oldDeclList ! i))
            [length (declMap_get newDeclMap key) ..< length oldDeclList])"

definition findChangedDeclarations ::
  "(string \<Rightarrow> string node list option) \<Rightarrow> string \<Rightarrow> string \<Rightarrow> change list" where
  "findChangedDeclarations parse oldCss newCss =
     (let oldDeclMap = declMap (parseDeclarations parse oldCss);
          newDeclMap = declMap (parseDeclarations parse newCss)
      in concat (map (changed_in oldDeclMap) newDeclMap)
         @ concat (map (deleted_in newDeclMap) oldDeclMap))"

section \<open>JavaScript regular expressions\<close>

text \<open>
  The regular expressions of the source are written as terms of \<open>rx\<close> and run by a
  backtracking matcher with the priorities of the JavaScript engine: a greedy quantifier
  tries one more iteration before it tries to stop, a lazy one the other way round, and an
  iteration that consumes nothing is not taken. \<open>rx_run r (s, caps)\<close> lists every way
  \<open>r\<close> matches a prefix of \<open>s\<close>, best first, each as the rest of the input and the
  captures (latest binding first). A class is a list of inclusive character ranges;
  \<open>Eos\<close> is \<open>$\<close>, \<open>Eol\<close> is \<open>$\<close> under the \<open>m\<close> flag.
  A \<open>char\<close> is a code unit below 256: \<open>\s\<close> is tab, line feed, vertical tab, form feed,
  carriage return, space and the no-break space U+00A0, and the line terminators are line
  feed and carriage return. The white space and the line terminators of JavaScript above
  U+00FF are not characters of these strings.
\<close>

datatype rx =
    Lit string
  | Cls "(char \<times> char) list"
  | NCls "(char \<times> char) list"
  | Cat rx rx
  | Alt rx rx
  | Star rx
  | LazyStar rx
  | Opt rx
  | Grp nat rx
  | Eos
  | Eol

type_synonym mstate = "string \<times> (nat \<times> string) list"

definition in_ranges :: "char \<Rightarrow> (char \<times> char) list \<Rightarrow> bool" where
  "in_ranges c rs = list_ex (\<lambda>r. fst r \<le> c \<and> c \<le> snd r) rs"

definition line_terminators :: "(char \<times> char) list" where
  "line_terminators = [(CHR 0x0A, CHR 0x0A), (CHR 0x0D, CHR 0x0D)]"

fun rx_iter :: "nat \<Rightarrow> (mstate \<Rightarrow> mstate list) \<Rightarrow> mstate \<Rightarrow> mstate list" where
  "rx_iter 0 f st = [st]"
| "rx_iter (Suc n) f st =
     concat (map (rx_iter n f) (filter (\<lambda>st'. length (fst st') < length (fst st)) (f st))) @ [st]"

fun rx_iter_lazy :: "nat \<Rightarrow> (mstate \<Rightarrow> mstate list) \<Rightarrow> mstate \<Rightarrow> mstate list" where
  "rx_iter_lazy 0 f st = [st]"
| "rx_iter_lazy (Suc n) f st =
     st # concat (map (rx_iter_lazy n f)
                      (filter (\<lambda>st'. length (fst st') < length (fst st)) (f st)))"

primrec rx_run :: "rx \<Rightarrow> mstate \<Rightarrow> mstate list" where
  "rx_run (Lit w) st =
     (if prefix w (fst st) then [(drop (length w) (fst st), snd st)] else [])"
| "rx_run (Cls rs) st =
     (case fst st of [] \<Rightarrow> [] | c # cs \<Rightarrow> (if in_ranges c rs then [(cs, snd st)] else []))"
| "rx_run (NCls rs) st =
     (case fst st of [] \<Rightarrow> [] | c # cs \<Rightarrow> (if in_ranges c rs then [] else [(cs, snd st)]))"
| "rx_run (Cat a b) st = concat (map (rx_run b) (rx_run a st))"
| "rx_run (Alt a b) st = rx_run a st @ rx_run b st"
| "rx_run (Star r) st = rx_iter (length (fst st)) (rx_run r) st"
| "rx_run (LazyStar r) st = rx_iter_lazy (length (fst st)) (rx_run r) st"
| "rx_run (Opt r) st = rx_run r st @ [st]"
| "rx_run (Grp k r) st =
     map (\<lambda>st'. (fst st', (k, take (length (fst st) - length (fst st')) (fst st)) # snd st'))
         (rx_run r st)"
| "rx_run Eos st = (if fst st = [] then [st] else [])"
| "rx_run Eol st =
     (case fst st of [] \<Rightarrow> [st] | c # cs \<Rightarrow> (if in_ranges c line_terminators then [st] else []))"

fun rx_seq :: "rx list \<Rightarrow> rx" where
  "rx_seq [] = Lit []"
| "rx_seq [r] = r"
| "rx_seq (r # rs) = Cat r (rx_seq rs)"

definition Plus :: "rx \<Rightarrow> rx" where
  "Plus r = Cat r (Star r)"

definition LazyPlus :: "rx \<Rightarrow> rx" where
  "LazyPlus r = Cat r (LazyStar r)"

text \<open>\<open>.\<close> is any character but a line terminator; \<open>\s\<close> the white space.\<close>

definition Dot :: rx where
  "Dot = NCls line_terminators"

definition ws_ranges :: "(char \<times> char) list" where
  "ws_ranges = [(CHR 0x09, CHR 0x0D), (CHR '' '', CHR '' ''), (CHR 0xA0, CHR 0xA0)]"

definition is_ws :: "char \<Rightarrow> bool" where
  "is_ws c = in_ranges c ws_ranges"

text \<open>
  \<open>s.match(/^.../)\<close> for a pattern anchored at the start: the captures of the best match,
  \<open>None\<close> for \<open>null\<close>. \<open>group m k\<close> is \<open>match[k]\<close>.
\<close>

definition rx_match :: "rx \<Rightarrow> string \<Rightarrow> (nat \<times> string) list option" where
  "rx_match r s = (case rx_run r (s, []) of [] \<Rightarrow> None | st # _ \<Rightarrow> Some (snd st))"

definition group :: "(nat \<times> string) list \<Rightarrow> nat \<Rightarrow> string" where
  "group m k = (case map_of m k of None \<Rightarrow> [] | Some w \<Rightarrow> w)"

text \<open>
  A pattern not anchored at the start is tried at every position from the left:
  \<open>rx_search\<close> returns the text before the match, the matched state, or \<open>None\<close>.
\<close>

fun rx_search :: "rx \<Rightarrow> string \<Rightarrow> string \<Rightarrow> (string \<times> mstate) option" where
  "rx_search r pre [] =
     (case rx_run r ([], []) of [] \<Rightarrow> None | st # _ \<Rightarrow> Some (pre, st))"
| "rx_search r pre (c # cs) =
     (case rx_run r (c # cs, []) of
        [] \<Rightarrow> rx_search r (pre @ [c]) cs
      | st # _ \<Rightarrow> Some (pre, st))"

text \<open>\<open>s.replace(r, '')\<close> for a pattern without the \<open>g\<close> flag, and \<open>r.test(s)\<close>.\<close>

definition rx_remove_first :: "rx \<Rightarrow> string \<Rightarrow> string" where
  "rx_remove_first r s =
     (case rx_search r [] s of None \<Rightarrow> s | Some (pre, st) \<Rightarrow> pre @ fst st)"

definition rx_test :: "rx \<Rightarrow> string \<Rightarrow> bool" where
  "rx_test r s = (rx_search r [] s \<noteq> None)"

section \<open>JavaScript string functions\<close>

text \<open>\<open>s.trim()\<close>\<close>

definition trim :: "string \<Rightarrow> string" where
  "trim s = rev (dropWhile is_ws (rev (dropWhile is_ws s)))"

text \<open>\<open>s.split(/\s+/)\<close>: the pieces between the maximal runs of white space.\<close>

fun split_ws_from :: "string \<Rightarrow> string \<Rightarrow> bool \<Rightarrow> string list" where
  "split_ws_from cur [] in_gap = [cur]"
| "split_ws_from cur (c # cs) in_gap =
     (if is_ws c then (if in_gap then split_ws_from cur cs True
                       else cur # split_ws_from [] cs True)
      else split_ws_from (cur @ [c]) cs False)"

definition split_ws :: "string \<Rightarrow> string list" where
  "split_ws s = split_ws_from [] s False"

text \<open>\<open>s.split(',')\<close>\<close>

fun split_comma_from :: "string \<Rightarrow> string \<Rightarrow> string list" where
  "split_comma_from cur [] = [cur]"
| "split_comma_from cur (c # cs) =
     (if c = CHR '','' then cur # split_comma_from [] cs else split_comma_from (cur @ [c]) cs)"

definition split_comma :: "string \<Rightarrow> string list" where
  "split_comma s = split_comma_from [] s"

text \<open>\<open>s.includes(w)\<close>\<close>

fun str_includes :: "string \<Rightarrow> string \<Rightarrow> bool" where
  "str_includes [] w = (w = [])"
| "str_includes (c # cs) w = (prefix w (c # cs) \<or> str_includes cs w)"

text \<open>\<open>s.replace(/\s+/g, ' ')\<close>: every maximal run of white space becomes one space.\<close>

fun collapse_ws_from :: "bool \<Rightarrow> string \<Rightarrow> string" where
  "collapse_ws_from in_gap [] = []"
| "collapse_ws_from in_gap (c # cs) =
     (if is_ws c then (if in_gap then collapse_ws_from True cs
                       else CHR '' '' # collapse_ws_from True cs)
      else c # collapse_ws_from False cs)"

definition collapse_ws :: "string \<Rightarrow> string" where
  "collapse_ws s = collapse_ws_from False s"

section \<open>Selector resolver (src/mapper/selector-resolver.js)\<close>

definition alpha :: rx where
  "alpha = Cls [(CHR ''A'', CHR ''Z''), (CHR ''a'', CHR ''z'')]"

definition alnum :: rx where
  "alnum = Cls [(CHR ''A'', CHR ''Z''), (CHR ''a'', CHR ''z''), (CHR ''0'', CHR ''9'')]"

definition alnum_dash :: rx where
  "alnum_dash = Cls [(CHR ''a'', CHR ''z''), (CHR ''A'', CHR ''Z''), (CHR ''0'', CHR ''9''),
                     (CHR ''-'', CHR ''-'')]"

text \<open>\<open>([A-Za-z][A-Za-z0-9]*)\<close> and \<open>([a-zA-Z][a-zA-Z0-9-]*)\<close>, groups 1 and 2 of every pattern.\<close>

definition comp_group :: rx where
  "comp_group = Grp 1 (Cat alpha (Star alnum))"

definition name_group :: rx where
  "name_group = Grp 2 (Cat alpha (Star alnum_dash))"

text \<open>\<open>/^\.([A-Za-z][A-Za-z0-9]*)-module_([a-zA-Z][a-zA-Z0-9-]*)__[a-zA-Z0-9]+$/\<close>\<close>

definition nextjsPattern :: rx where
  "nextjsPattern =
     rx_seq [Lit ''.'', comp_group, Lit ''-module_'', name_group, Lit ''__'', Plus alnum, Eos]"

text \<open>\<open>/^\.(?:[a-zA-Z0-9]+_)*([A-Za-z][A-Za-z0-9]*)-module_([a-zA-Z][a-zA-Z0-9-]*)__[a-zA-Z0-9]+$/\<close>\<close>

definition pathNextjsPattern :: rx where
  "pathNextjsPattern =
     rx_seq [Lit ''.'', Star (Cat (Plus alnum) (Lit ''_'')), comp_group, Lit ''-module_'',
             name_group, Lit ''__'', Plus alnum, Eos]"

text \<open>\<open>/^\.(?:[a-zA-Z0-9]+-)*([A-Za-z][A-Za-z0-9]*)-module__([a-zA-Z][a-zA-Z0-9-]*)--[a-zA-Z0-9]+$/\<close>\<close>

definition bemPattern :: rx where
  "bemPattern =
     rx_seq [Lit ''.'', Star (Cat (Plus alnum) (Lit ''-'')), comp_group, Lit ''-module__'',
             name_group, Lit ''--'', Plus alnum, Eos]"

text \<open>\<open>/^\.(?:[a-zA-Z0-9]+_)*([A-Za-z][A-Za-z0-9]*)_([a-zA-Z][a-zA-Z0-9-]*)__[a-zA-Z0-9]+$/\<close>\<close>

definition pathPattern :: rx where
  "pathPattern =
     rx_seq [Lit ''.'', Star (Cat (Plus alnum) (Lit ''_'')), comp_group, Lit ''_'',
             name_group, Lit ''__'', Plus alnum, Eos]"

text \<open>\<open>/^\.([A-Za-z][A-Za-z0-9]*)_([a-zA-Z][a-zA-Z0-9-]*)__[a-zA-Z0-9]+$/\<close>\<close>

definition simplePattern :: rx where
  "simplePattern =
     rx_seq [Lit ''.'', comp_group, Lit ''_'', name_group, Lit ''__'', Plus alnum, Eos]"

record parsed_selector =
  component :: string
  className :: string
  parsed_originalSelector :: string
  hasNested :: bool
  nestedParts :: "string list"

text \<open>
  \<open>parseCSSModuleSelector\<close>: the five patterns are tried in the order of the source on
  the first piece of \<open>selector.split(/\s+/)\<close>; the first that matches gives the result.
\<close>

definition selector_patterns :: "rx list" where
  "selector_patterns = [nextjsPattern, pathNextjsPattern, bemPattern, pathPattern, simplePattern]"

fun first_match :: "rx list \<Rightarrow> string \<Rightarrow> (nat \<times> string) list option" where
  "first_match [] s = None"
| "first_match (r # rs) s =
     (case rx_match r s of Some m \<Rightarrow> Some m | None \<Rightarrow> first_match rs s)"

definition parseCSSModuleSelector :: "string \<Rightarrow> parsed_selector option" where
  "parseCSSModuleSelector selector =
     (let parts = split_ws selector;
          mainSelector = hd parts
      in case first_match selector_patterns mainSelector of
           None \<Rightarrow> None
         | Some m \<Rightarrow>
             Some \<lparr>component = group m 1, className = group m 2,
                   parsed_originalSelector = ''.'' @ group m 2,
                   hasNested = (length parts > 1), nestedParts = tl parts\<rparr>)"

section \<open>Node.js: file system and paths\<close>

text \<open>
  The file system is a map from a path to a file with its content or to a directory with
  the names \<open>readdirSync\<close> lists. \<open>existsSync\<close> holds of both; \<open>readFile\<close> fails
  (\<open>None\<close>) on anything but a file.
\<close>

datatype fs_entry = File string | Dir "string list"

type_synonym filesystem = "string \<rightharpoonup> fs_entry"

definition existsSync :: "filesystem \<Rightarrow> string \<Rightarrow> bool" where
  "existsSync fs p = (fs p \<noteq> None)"

definition readFile :: "filesystem \<Rightarrow> string \<Rightarrow> string option" where
  "readFile fs p = (case fs p of Some (File c) \<Rightarrow> Some c | _ \<Rightarrow> None)"

text \<open>
  The functions of Node's \<open>path\<close> and \<open>url\<close> modules and the \<open>URL\<close> class are
  parameters: \<open>join(...)\<close>, \<open>resolve(a, b)\<close>, \<open>dirname\<close>, \<open>basename(p, ext)\<close>,
  \<open>fileURLToPath\<close>, and \<open>new URL(url, base).pathname\<close> (\<open>None\<close> when the constructor
  throws).
\<close>

record node_api =
  path_join :: "string list \<Rightarrow> string"
  path_resolve :: "string \<Rightarrow> string \<Rightarrow> string"
  path_dirname :: "string \<Rightarrow> string"
  path_basename :: "string \<Rightarrow> string \<Rightarrow> string"
  fileURLToPath :: "string \<Rightarrow> string"
  url_pathname :: "string \<Rightarrow> string \<Rightarrow> string option"

text \<open>\<open>s.replace(w, '')\<close> for a string \<open>w\<close>: the first occurrence is removed.\<close>

fun remove_first_lit :: "string \<Rightarrow> string \<Rightarrow> string" where
  "remove_first_lit w [] = []"
| "remove_first_lit w (c # cs) =
     (if prefix w (c # cs) then drop (length w) (c # cs) else c # remove_first_lit w cs)"

text \<open>\<open>s.toLowerCase()\<close> on ASCII.\<close>

definition lower_char :: "char \<Rightarrow> char" where
  "lower_char c = (if CHR ''A'' \<le> c \<and> c \<le> CHR ''Z'' then char_of (of_char c + (32::nat)) else c)"

definition toLowerCase :: "string \<Rightarrow> string" where
  "toLowerCase s = map lower_char s"

section \<open>Selector resolver: locating the module file\<close>

definition excludeDirs :: "string list" where
  "excludeDirs = [''node_modules'', ''.next'', ''.git'', ''dist'', ''build'']"

text \<open>
  \<open>searchFiles\<close>: the first argument counts the levels left, 11 at the project root
  (\<open>depth\<close> 0 to 10 are searched, \<open>depth > 10\<close> returns). A directory that cannot be
  listed and an entry that cannot be stat'ed are skipped by the two \<open>catch\<close> blocks.
\<close>

fun searchFiles ::
  "node_api \<Rightarrow> filesystem \<Rightarrow> nat \<Rightarrow> string \<Rightarrow> string list \<Rightarrow> string list" where
  "searchFiles api fs 0 dir patterns = []"
| "searchFiles api fs (Suc levels) dir patterns =
     (case fs dir of
        Some (Dir entries) \<Rightarrow>
          concat (map (\<lambda>entry.
              case fs (path_join api [dir, entry]) of
                Some (Dir sub) \<Rightarrow>
                  (if entry \<in> set excludeDirs then []
                   else searchFiles api fs levels (path_join api [dir, entry]) patterns)
              | Some (File c) \<Rightarrow>
                  (if entry \<in> set patterns then [path_join api [dir, entry]] else [])
              | None \<Rightarrow> [])
            entries)
      | _ \<Rightarrow> [])"

definition findModuleFiles :: "node_api \<Rightarrow> filesystem \<Rightarrow> string \<Rightarrow> string \<Rightarrow> string list" where
  "findModuleFiles api fs projectRoot componentName =
     searchFiles api fs 11 projectRoot
       [componentName @ ''.module.scss'', componentName @ ''.module.css'']"

text \<open>
  \<open>hasSelector\<close>: the four patterns built from the class name, under the \<open>m\<close> flag. The
  class name comes from group 2 of a selector pattern, so it holds no character that is
  special in a regular expression. The content is cached per file unless it is empty
  (\<open>!content\<close>); a file that cannot be read gives \<open>false\<close>.
\<close>

definition selector_tests :: "string \<Rightarrow> rx list" where
  "selector_tests cname =
     [rx_seq [Lit ''.'', Lit cname, Star (Cls ws_ranges), Lit ''{''],
      rx_seq [Lit ''&.'', Lit cname, Star (Cls ws_ranges), Lit ''{''],
      rx_seq [Lit ''.'', Lit cname, Star (Cls ws_ranges), Lit '',''],
      rx_seq [Lit ''.'', Lit cname, Star (Cls ws_ranges), Eol]]"

definition hasSelector ::
  "filesystem \<Rightarrow> (string \<rightharpoonup> string) \<Rightarrow> string \<Rightarrow> string \<Rightarrow> bool \<times> (string \<rightharpoonup> string)" where
  "hasSelector fs fileCache filePath cname =
     (case js_or_null (fileCache filePath) of
        Some content \<Rightarrow> (list_ex (\<lambda>p. rx_test p content) (selector_tests cname), fileCache)
      | None \<Rightarrow>
          (case readFile fs filePath of
             None \<Rightarrow> (False, fileCache)
           | Some content \<Rightarrow>
               (list_ex (\<lambda>p. rx_test p content) (selector_tests cname),
                fileCache(filePath \<mapsto> content))))"

text \<open>
  The two loops of \<open>resolve\<close> over the module files: the first looks only at files
  whose base name equals the component name up to case, the second at all of them. Each
  returns the first file that has the selector.
\<close>

fun first_with_selector ::
  "filesystem \<Rightarrow> (string \<Rightarrow> bool) \<Rightarrow> string \<Rightarrow> (string \<rightharpoonup> string) \<Rightarrow> string list
     \<Rightarrow> string option \<times> (string \<rightharpoonup> string)" where
  "first_with_selector fs wanted cname fileCache [] = (None, fileCache)"
| "first_with_selector fs wanted cname fileCache (filePath # rest) =
     (if wanted filePath
      then (case hasSelector fs fileCache filePath cname of
              (True, fileCache') \<Rightarrow> (Some filePath, fileCache')
            | (False, fileCache') \<Rightarrow> first_with_selector fs wanted cname fileCache' rest)
      else first_with_selector fs wanted cname fileCache rest)"

record selector_resolver =
  sr_cache :: "string \<rightharpoonup> string \<times> string"
  sr_fileCache :: "string \<rightharpoonup> string"

text \<open>
  \<open>SelectorResolver.resolve\<close> returns \<open>{filePath, originalSelector}\<close> or \<open>null\<close>, and
  the resolver with its caches updated.
\<close>

definition selector_resolve ::
  "node_api \<Rightarrow> filesystem \<Rightarrow> string \<Rightarrow> selector_resolver \<Rightarrow> string
     \<Rightarrow> (string \<times> string) option \<times> selector_resolver" where
  "selector_resolve api fs projectRoot sr selector =
     (case sr_cache sr selector of
        Some cached \<Rightarrow> (Some cached, sr)
      | None \<Rightarrow>
          (case parseCSSModuleSelector selector of
             None \<Rightarrow> (None, sr)
           | Some parsed \<Rightarrow>
               (let moduleFiles = findModuleFiles api fs projectRoot (component parsed);
                    same_name = (\<lambda>filePath.
                       toLowerCase (remove_first_lit ''.module.css''
                                      (path_basename api filePath ''.module.scss''))
                         = toLowerCase (component parsed))
                in case first_with_selector fs same_name (className parsed)
                          (sr_fileCache sr) moduleFiles of
                     (Some filePath, fc) \<Rightarrow>
                       (Some (filePath, parsed_originalSelector parsed),
                        \<lparr>sr_cache = (sr_cache sr)(selector \<mapsto>
                                       (filePath, parsed_originalSelector parsed)),
                         sr_fileCache = fc\<rparr>)
                   | (None, fc) \<Rightarrow>
                       (case first_with_selector fs (\<lambda>filePath. True) (className parsed)
                               fc moduleFiles of
                          (Some filePath, fc') \<Rightarrow>
                            (Some (filePath, parsed_originalSelector parsed),
                             \<lparr>sr_cache = (sr_cache sr)(selector \<mapsto>
                                            (filePath, parsed_originalSelector parsed)),
                              sr_fileCache = fc'\<rparr>)
                        | (None, fc') \<Rightarrow> (None, sr\<lparr>sr_fileCache := fc'\<rparr>)))))"

section \<open>URL resolver (src/mapper/url-resolver.js)\<close>

record url_resolver =
  projectRoot :: string
  devServerBase :: string
  mappings :: "(string \<times> string) list"

text \<open>
  \<open>findNextJSSource\<close>: the query string is cut off; the built file under
  \<open>.next/static/css\<close> is returned as soon as it exists; only then are the authored
  sources probed, eight candidates for \<open>layout.css\<close> and four for \<open>page.css\<close>.
\<close>

definition strip_query :: "string \<Rightarrow> string" where
  "strip_query cssPath = rx_remove_first (rx_seq [Lit ''?'', Star Dot, Eos]) cssPath"

text \<open>\<open>s.split('/')\<close>, its last piece, and the others joined by \<open>/\<close> again.\<close>

fun split_slash_from :: "string \<Rightarrow> string \<Rightarrow> string list" where
  "split_slash_from cur [] = [cur]"
| "split_slash_from cur (c # cs) =
     (if c = CHR ''/'' then cur # split_slash_from [] cs else split_slash_from (cur @ [c]) cs)"

fun join_slash :: "string list \<Rightarrow> string" where
  "join_slash [] = []"
| "join_slash [p] = p"
| "join_slash (p # ps) = p @ ''/'' @ join_slash ps"

definition nextBuildPath :: "node_api \<Rightarrow> string \<Rightarrow> string \<Rightarrow> string" where
  "nextBuildPath api root cssPath =
     path_join api [root, ''.next'', ''static'', ''css'', strip_query cssPath]"

definition globalPaths :: "node_api \<Rightarrow> string \<Rightarrow> string \<Rightarrow> string list" where
  "globalPaths api root dirname =
     [path_join api [root, dirname, ''globals.css''],
      path_join api [root, dirname, ''global.css''],
      path_join api [root, dirname, ''globals.scss''],
      path_join api [root, dirname, ''global.scss''],
      path_join api [root, ''app'', ''globals.css''],
      path_join api [root, ''app'', ''global.scss''],
      path_join api [root, ''styles'', ''globals.css''],
      path_join api [root, ''styles'', ''global.scss'']]"

definition modulePaths :: "node_api \<Rightarrow> string \<Rightarrow> string \<Rightarrow> string list" where
  "modulePaths api root dirname =
     [path_join api [root, dirname, ''page.module.scss''],
      path_join api [root, dirname, ''page.module.css''],
      path_join api [root, dirname, ''styles.module.scss''],
      path_join api [root, dirname, ''styles.module.css'']]"

definition findNextJSSource :: "node_api \<Rightarrow> filesystem \<Rightarrow> string \<Rightarrow> string \<Rightarrow> string option" where
  "findNextJSSource api fs root cssPath0 =
     (let cssPath = strip_query cssPath0;
          nextBuild = path_join api [root, ''.next'', ''static'', ''css'', cssPath]
      in if existsSync fs nextBuild then Some nextBuild
         else
           (let pathParts = split_slash_from [] cssPath;
                filename = last pathParts;
                dirname = join_slash (butlast pathParts)
            in case (if filename = ''layout.css''
                     then List.find (existsSync fs) (globalPaths api root dirname) else None) of
                 Some p \<Rightarrow> Some p
               | None \<Rightarrow>
                   (if filename = ''page.css''
                    then List.find (existsSync fs) (modulePaths api root dirname)
                    else None)))"

definition findInProject :: "node_api \<Rightarrow> filesystem \<Rightarrow> string \<Rightarrow> string \<Rightarrow> string option" where
  "findInProject api fs root filename =
     List.find (existsSync fs)
       [path_join api [root, ''src'', ''styles'', filename],
        path_join api [root, ''src'', ''css'', filename],
        path_join api [root, ''styles'', filename],
        path_join api [root, ''css'', filename],
        path_join api [root, ''public'', ''styles'', filename],
        path_join api [root, ''public'', ''css'', filename]]"

text \<open>The seven default rules, in order: a pattern on the pathname and what it resolves to.\<close>

definition css_tail :: "string \<Rightarrow> rx" where
  "css_tail dir = rx_seq [Lit dir, Grp 1 (Cat (Plus Dot) (Lit ''.css'')), Eos]"

definition nextjs_url_pattern :: rx where
  "nextjs_url_pattern =
     rx_seq [Opt (Cat (Lit ''/'') (Plus (NCls [(CHR ''/'', CHR ''/'')]))),
             Lit ''/_next/static/css/'', Grp 1 (LazyPlus Dot),
             Opt (Cat (Lit ''?'') (Star Dot)), Eos]"

definition defaultMappings ::
  "node_api \<Rightarrow> filesystem \<Rightarrow> string \<Rightarrow> (rx \<times> ((nat \<times> string) list \<Rightarrow> string option)) list" where
  "defaultMappings api fs root =
     [(nextjs_url_pattern, \<lambda>m. findNextJSSource api fs root (group m 1)),
      (css_tail ''/src/'', \<lambda>m. Some (path_join api [root, ''src'', group m 1])),
      (css_tail ''/assets/'', \<lambda>m. findInProject api fs root (group m 1)),
      (css_tail ''/static/'', \<lambda>m. Some (path_join api [root, ''static'', group m 1])),
      (css_tail ''/styles/'', \<lambda>m. Some (path_join api [root, ''styles'', group m 1])),
      (css_tail ''/css/'', \<lambda>m. Some (path_join api [root, ''css'', group m 1])),
      (css_tail ''/'', \<lambda>m. Some (path_join api [root, ''public'', group m 1]))]"

fun first_default ::
  "filesystem \<Rightarrow> string \<Rightarrow> (rx \<times> ((nat \<times> string) list \<Rightarrow> string option)) list \<Rightarrow> string option" where
  "first_default fs pathname [] = None"
| "first_default fs pathname ((pattern, resolveFn) # rest) =
     (case rx_match pattern pathname of
        None \<Rightarrow> first_default fs pathname rest
      | Some m \<Rightarrow>
          (case resolveFn m of
             None \<Rightarrow> first_default fs pathname rest
           | Some localPath \<Rightarrow>
               (if localPath \<noteq> [] \<and> existsSync fs localPath then Some localPath
                else first_default fs pathname rest)))"

text \<open>
  The user's mappings: \<open>pathname.replace(pattern, replacement)\<close> replaces the prefix,
  since \<open>pathname.startsWith(pattern)\<close> (a replacement holding \<open>$\<close> patterns is not
  modelled).
\<close>

fun first_mapping ::
  "node_api \<Rightarrow> filesystem \<Rightarrow> string \<Rightarrow> string \<Rightarrow> (string \<times> string) list \<Rightarrow> string option" where
  "first_mapping api fs root pathname [] = None"
| "first_mapping api fs root pathname ((pattern, replacement) # rest) =
     (if prefix pattern pathname
         \<and> existsSync fs (path_resolve api root (replacement @ drop (length pattern) pathname))
      then Some (path_resolve api root (replacement @ drop (length pattern) pathname))
      else first_mapping api fs root pathname rest)"

definition url_resolve :: "node_api \<Rightarrow> filesystem \<Rightarrow> url_resolver \<Rightarrow> string option \<Rightarrow> string option" where
  "url_resolve api fs r url0 =
     (case js_or_null url0 of
        None \<Rightarrow> None
      | Some url \<Rightarrow>
          if prefix ''file://'' url then Some (fileURLToPath api url)
          else
            (let pathname = (case url_pathname api url (devServerBase r) of
                               Some p \<Rightarrow> p | None \<Rightarrow> url)
             in case first_mapping api fs (projectRoot r) pathname (mappings r) of
                  Some p \<Rightarrow> Some p
                | None \<Rightarrow>
                    (case first_default fs pathname (defaultMappings api fs (projectRoot r)) of
                       Some p \<Rightarrow> Some p
                     | None \<Rightarrow>
                         List.find (existsSync fs)
                           [path_join api [projectRoot r, pathname],
                            path_join api [projectRoot r, ''src'', pathname],
                            path_join api [projectRoot r, ''public'', pathname]])))"

text \<open>
  An instance of the path functions for the examples: \<open>join\<close> on pieces that need no
  normalisation puts a \<open>/\<close> between them, and the pathname of a URL on the development
  server \<open>http://localhost:3000\<close> is what follows the origin.
\<close>

definition example_api :: node_api where
  "example_api =
     \<lparr>path_join = join_slash,
      path_resolve = (\<lambda>a b. if prefix ''/'' b then b else a @ ''/'' @ b),
      path_dirname = (\<lambda>p. join_slash (butlast (split_slash_from [] p))),
      path_basename = (\<lambda>p ext.
         (let b = last (split_slash_from [] p)
          in if suffix ext b \<and> b \<noteq> ext then take (length b - length ext) b else b)),
      fileURLToPath = drop 7,
      url_pathname = (\<lambda>url base.
         Some (if prefix ''http://localhost:3000'' url then drop 21 url else url))\<rparr>"

section \<open>Structured patchers (src/patcher/css-patcher.js, src/patcher/scss-patcher.js)\<close>

text \<open>
  What the patchers take from outside: the two parsers (\<open>postcss.parse\<close> and
  \<open>scss.parse\<close>, \<open>None\<close> when they throw), \<open>root.toString()\<close>, and the two calls of
  \<open>fs/promises\<close> that change the disk, each returning the disk after the call and
  whether it succeeded (\<open>False\<close>: the promise rejects). The tree the patchers edit holds
  \<open>string option\<close> values: the SCSS patcher can store \<open>undefined\<close>.
\<close>

record patch_env =
  postcss_parse :: "string \<Rightarrow> string node list option"
  scss_parse :: "string \<Rightarrow> string node list option"
  stringify :: "string option node list \<Rightarrow> string"
  fs_writeFile :: "filesystem \<Rightarrow> string \<Rightarrow> string \<Rightarrow> filesystem \<times> bool"
  fs_rename :: "filesystem \<Rightarrow> string \<Rightarrow> string \<Rightarrow> filesystem \<times> bool"

text \<open>\<open>matchSelector\<close>: both selectors normalised by \<open>s.replace(/\s+/g, ' ').trim()\<close>.\<close>

definition normalize :: "string \<Rightarrow> string" where
  "normalize s = trim (collapse_ws s)"

definition matchSelector :: "string \<Rightarrow> string \<Rightarrow> bool" where
  "matchSelector fileSelector targetSelector = (normalize fileSelector = normalize targetSelector)"

text \<open>
  \<open>hasImportant\<close> and \<open>cleanValue\<close>:
  \<open>newValue.includes('!important')\<close> and
  \<open>newValue.replace(/\s*!important\s*$/, '').trim()\<close>.
\<close>

definition important_tail :: rx where
  "important_tail = rx_seq [Star (Cls ws_ranges), Lit ''!important'', Star (Cls ws_ranges), Eos]"

definition hasImportant :: "string \<Rightarrow> bool" where
  "hasImportant v = str_includes v ''!important''"

definition cleanValue :: "string \<Rightarrow> string" where
  "cleanValue v = trim (rx_remove_first important_tail v)"

text \<open>What a \<open>walkDecls\<close> callback does to a declaration it visits.\<close>

datatype 'v decl_action = Remove | SetTo 'v bool

text \<open>
  \<open>root.walkRules\<close> visits every rule at any depth, and on a rule whose selector matches
  \<open>rule.walkDecls(prop, cb)\<close> visits every declaration of that property below the rule,
  at any depth. So the callback reaches a declaration exactly when its property is
  \<open>prop\<close> and one of the rules above it matches; \<open>inside\<close> says that one does.
  \<open>css_touch\<close> is the tree after the walk, \<open>css_found\<close> whether the callback ran.
\<close>

fun css_touch ::
  "string \<Rightarrow> string \<Rightarrow> 'v decl_action \<Rightarrow> bool \<Rightarrow> 'v node list \<Rightarrow> 'v node list" where
  "css_touch target p act inside [] = []"
| "css_touch target p act inside (Decl q v i src # ns) =
     (if inside \<and> q = p
      then (case act of
              Remove \<Rightarrow> css_touch target p act inside ns
            | SetTo v' i' \<Rightarrow> Decl q v' i' src # css_touch target p act inside ns)
      else Decl q v i src # css_touch target p act inside ns)"
| "css_touch target p act inside (Rule sel kids # ns) =
     Rule sel (css_touch target p act (inside \<or> matchSelector sel target) kids)
       # css_touch target p act inside ns"
| "css_touch target p act inside (AtRule name kids # ns) =
     AtRule name (css_touch target p act inside kids) # css_touch target p act inside ns"
| "css_touch target p act inside (Comment c # ns) =
     Comment c # css_touch target p act inside ns"

fun css_found :: "string \<Rightarrow> string \<Rightarrow> bool \<Rightarrow> 'v node list \<Rightarrow> bool" where
  "css_found target p inside [] = False"
| "css_found target p inside (Decl q v i src # ns) =
     ((inside \<and> q = p) \<or> css_found target p inside ns)"
| "css_found target p inside (Rule sel kids # ns) =
     (css_found target p (inside \<or> matchSelector sel target) kids
      \<or> css_found target p inside ns)"
| "css_found target p inside (AtRule name kids # ns) =
     (css_found target p inside kids \<or> css_found target p inside ns)"
| "css_found target p inside (Comment c # ns) = css_found target p inside ns"

text \<open>
  The rules in the order \<open>walkRules\<close> visits them, each with the path of child indexes
  that leads to it. \<open>targetRule\<close> is the last visited rule that matches.
\<close>

fun css_visits :: "nat list \<Rightarrow> nat \<Rightarrow> 'v node list \<Rightarrow> (nat list \<times> string) list" where
  "css_visits path i [] = []"
| "css_visits path i (Rule sel kids # ns) =
     (path @ [i], sel) # css_visits (path @ [i]) 0 kids @ css_visits path (Suc i) ns"
| "css_visits path i (AtRule name kids # ns) =
     css_visits (path @ [i]) 0 kids @ css_visits path (Suc i) ns"
| "css_visits path i (Decl q v imp src # ns) = css_visits path (Suc i) ns"
| "css_visits path i (Comment c # ns) = css_visits path (Suc i) ns"

definition targetRule :: "string \<Rightarrow> (nat list \<times> string) list \<Rightarrow> nat list option" where
  "targetRule target visits =
     (case filter (\<lambda>v. matchSelector (snd v) target) visits of
        [] \<Rightarrow> None
      | v # vs \<Rightarrow> Some (fst (last (v # vs))))"

text \<open>\<open>targetRule.append(decl)\<close>: the declaration becomes the last child of the rule at the path.\<close>

fun map_kids :: "('v node list \<Rightarrow> 'v node list) \<Rightarrow> 'v node \<Rightarrow> 'v node" where
  "map_kids f (Rule sel kids) = Rule sel (f kids)"
| "map_kids f (AtRule name kids) = AtRule name (f kids)"
| "map_kids f n = n"

primrec append_at :: "nat list \<Rightarrow> 'v node \<Rightarrow> 'v node list \<Rightarrow> 'v node list" where
  "append_at [] d ns = ns @ [d]"
| "append_at (i # path) d ns =
     (if i < length ns then ns[i := map_kids (append_at path d) (ns ! i)] else ns)"

text \<open>
  One iteration of the loop of \<open>CSSPatcher.patchMultiple\<close>: the tree after it and
  \<open>found\<close>, or \<open>None\<close> when it throws: \<open>change.newValue.includes\<close> on a \<open>null\<close> value,
  reached when the type is not \<open>delete\<close> and a declaration is visited.
\<close>

definition css_patch_one ::
  "change \<Rightarrow> string option node list \<Rightarrow> (bool \<times> string option node list) option" where
  "css_patch_one c root =
     (let found = css_found (ch_selector c) (ch_prop c) False root
      in if ch_type c = ''delete''
         then Some (found, css_touch (ch_selector c) (ch_prop c) Remove False root)
         else if found
         then (case newValue c of
                 None \<Rightarrow> None
               | Some v \<Rightarrow>
                   Some (True, css_touch (ch_selector c) (ch_prop c)
                                 (SetTo (Some (cleanValue v)) (hasImportant v)) False root))
         else (case (targetRule (ch_selector c) (css_visits [] 0 root), js_or_null (newValue c)) of
                 (Some path, Some v) \<Rightarrow>
                   (if ch_type c = ''add''
                    then Some (True, append_at path
                                 (Decl (ch_prop c) (Some (cleanValue v)) (hasImportant v) None) root)
                    else Some (False, root))
               | _ \<Rightarrow> Some (False, root)))"

text \<open>
  \<open>SCSSPatcher.walkRulesDeep\<close> looks at the children of type rule only, computes the
  full selectors of each under the parent selector (\<open>&\<close> replaced by the parent, a space
  put after the parent otherwise), calls back once per full selector and then walks the
  rule's children once per full selector.
\<close>

definition full_selectors :: "string \<Rightarrow> string \<Rightarrow> string list" where
  "full_selectors parentSelector sel =
     map (\<lambda>s. if prefix ''&'' s then parentSelector @ tl s
               else if parentSelector \<noteq> [] then parentSelector @ '' '' @ s
               else s)
         (map trim (split_comma sel))"

text \<open>
  The visits of \<open>walkRulesDeep\<close> in order: the path of the rule and the full selector
  handed to the callback.
\<close>

fun scss_visits ::
  "string \<Rightarrow> nat list \<Rightarrow> nat \<Rightarrow> 'v node list \<Rightarrow> (nat list \<times> string) list" where
  "scss_visits par path i [] = []"
| "scss_visits par path i (Rule sel kids # ns) =
     map (\<lambda>f. (path @ [i], f)) (full_selectors par sel)
     @ concat (map (\<lambda>f. scss_visits f (path @ [i]) 0 kids) (full_selectors par sel))
     @ scss_visits par path (Suc i) ns"
| "scss_visits par path i (AtRule name kids # ns) = scss_visits par path (Suc i) ns"
| "scss_visits par path i (Decl q v imp src # ns) = scss_visits par path (Suc i) ns"
| "scss_visits par path i (Comment c # ns) = scss_visits par path (Suc i) ns"

text \<open>
  The callback reaches a declaration of the property exactly when a rule above it was
  called back with a matching full selector. \<open>parents\<close> are the full selectors under which
  the children are walked. Below an at-rule no rule is looked at; its declarations are
  reached only from a matching rule above it.
\<close>

fun scss_touch ::
  "string \<Rightarrow> string \<Rightarrow> 'v decl_action \<Rightarrow> bool \<Rightarrow> string list \<Rightarrow> 'v node list \<Rightarrow> 'v node list"
  where
  "scss_touch target p act inside parents [] = []"
| "scss_touch target p act inside parents (Decl q v i src # ns) =
     (if inside \<and> q = p
      then (case act of
              Remove \<Rightarrow> scss_touch target p act inside parents ns
            | SetTo v' i' \<Rightarrow> Decl q v' i' src # scss_touch target p act inside parents ns)
      else Decl q v i src # scss_touch target p act inside parents ns)"
| "scss_touch target p act inside parents (Rule sel kids # ns) =
     Rule sel (scss_touch target p act
                 (inside \<or> list_ex (\<lambda>f. matchSelector f target)
                               (concat (map (\<lambda>par. full_selectors par sel) parents)))
                 (concat (map (\<lambda>par. full_selectors par sel) parents)) kids)
       # scss_touch target p act inside parents ns"
| "scss_touch target p act inside parents (AtRule name kids # ns) =
     AtRule name (if inside then css_touch target p act True kids else kids)
       # scss_touch target p act inside parents ns"
| "scss_touch target p act inside parents (Comment c # ns) =
     Comment c # scss_touch target p act inside parents ns"

fun scss_found :: "string \<Rightarrow> string \<Rightarrow> bool \<Rightarrow> string list \<Rightarrow> 'v node list \<Rightarrow> bool" where
  "scss_found target p inside parents [] = False"
| "scss_found target p inside parents (Decl q v i src # ns) =
     ((inside \<and> q = p) \<or> scss_found target p inside parents ns)"
| "scss_found target p inside parents (Rule sel kids # ns) =
     (scss_found target p
        (inside \<or> list_ex (\<lambda>f. matchSelector f target)
                      (concat (map (\<lambda>par. full_selectors par sel) parents)))
        (concat (map (\<lambda>par. full_selectors par sel) parents)) kids
      \<or> scss_found target p inside parents ns)"
| "scss_found target p inside parents (AtRule name kids # ns) =
     ((inside \<and> css_found target p True kids) \<or> scss_found target p inside parents ns)"
| "scss_found target p inside parents (Comment c # ns) = scss_found target p inside parents ns"

text \<open>
  One iteration of the loop of \<open>SCSSPatcher.patchMultiple\<close>. With \<open>?.\<close> a \<open>null\<close> new
  value does not throw: the declaration gets the value \<open>undefined\<close> and is not important.
\<close>

definition scss_patch_one ::
  "change \<Rightarrow> string option node list \<Rightarrow> (bool \<times> string option node list) option" where
  "scss_patch_one c root =
     (let found = scss_found (ch_selector c) (ch_prop c) False [[]] root
      in if ch_type c = ''delete''
         then Some (found, scss_touch (ch_selector c) (ch_prop c) Remove False [[]] root)
         else if found
         then Some (True, scss_touch (ch_selector c) (ch_prop c)
                            (case newValue c of
                               None \<Rightarrow> SetTo None False
                             | Some v \<Rightarrow> SetTo (Some (cleanValue v)) (hasImportant v))
                            False [[]] root)
         else (case (targetRule (ch_selector c) (scss_visits [] [] 0 root),
                     js_or_null (newValue c)) of
                 (Some path, Some v) \<Rightarrow>
                   (if ch_type c = ''add''
                    then Some (True, append_at path
                                 (Decl (ch_prop c) (Some (cleanValue v)) (hasImportant v) None) root)
                    else Some (False, root))
               | _ \<Rightarrow> Some (False, root)))"

text \<open>
  The loop over the changes with its two counters; \<open>None\<close> when an iteration throws.
\<close>

fun patch_loop ::
  "(change \<Rightarrow> string option node list \<Rightarrow> (bool \<times> string option node list) option)
     \<Rightarrow> string option node list \<Rightarrow> change list \<Rightarrow> nat \<Rightarrow> nat
     \<Rightarrow> (nat \<times> nat \<times> string option node list) option" where
  "patch_loop one root [] success failed = Some (success, failed, root)"
| "patch_loop one root (c # cs) success failed =
     (case one c root of
        None \<Rightarrow> None
      | Some (found, root') \<Rightarrow>
          (if found then patch_loop one root' cs (Suc success) failed
           else patch_loop one root' cs success (Suc failed)))"

text \<open>
  \<open>writeFile\<close> of both patchers: with \<open>atomicWrite\<close> the content goes to
  \<open>.<Date.now()>.tmp\<close> beside the file, which is then renamed over it. \<open>stamp\<close> is
  \<open>Date.now()\<close> in decimal. The result is the disk and whether nothing threw.
\<close>

definition patcher_writeFile ::
  "node_api \<Rightarrow> patch_env \<Rightarrow> bool \<Rightarrow> string \<Rightarrow> filesystem \<Rightarrow> string \<Rightarrow> string
     \<Rightarrow> filesystem \<times> bool" where
  "patcher_writeFile api env atomicWrite stamp fs filePath content =
     (if atomicWrite
      then (let tempPath = path_join api [path_dirname api filePath, ''.'' @ stamp @ ''.tmp'']
            in case fs_writeFile env fs tempPath content of
                 (fs1, False) \<Rightarrow> (fs1, False)
               | (fs1, True) \<Rightarrow> fs_rename env fs1 tempPath filePath)
      else fs_writeFile env fs filePath content)"

text \<open>
  The body the two \<open>patchMultiple\<close> methods share, line for line; they differ in the
  parser and in the iteration. The result is \<open>{success, failed}\<close> and the disk after the
  call. Every exception inside the \<open>try\<close> ends in the \<open>catch\<close>, which returns
  \<open>{success: 0, failed: changes.length}\<close>.
\<close>

definition patchMultiple_body ::
  "(string \<Rightarrow> string node list option)
     \<Rightarrow> (change \<Rightarrow> string option node list \<Rightarrow> (bool \<times> string option node list) option)
     \<Rightarrow> node_api \<Rightarrow> patch_env \<Rightarrow> bool \<Rightarrow> string \<Rightarrow> filesystem \<Rightarrow> string \<Rightarrow> change list
     \<Rightarrow> (nat \<times> nat) \<times> filesystem" where
  "patchMultiple_body parse one api env atomicWrite stamp fs filePath changes =
     (if \<not> existsSync fs filePath then ((0, length changes), fs)
      else
        (case readFile fs filePath of
           None \<Rightarrow> ((0, length changes), fs)
         | Some content \<Rightarrow>
             (case parse content of
                None \<Rightarrow> ((0, length changes), fs)
              | Some root \<Rightarrow>
                  (case patch_loop one (map (map_node Some) root) changes 0 0 of
                     None \<Rightarrow> ((0, length changes), fs)
                   | Some (success, failed, root') \<Rightarrow>
                       (if success > 0
                        then (case patcher_writeFile api env atomicWrite stamp fs filePath
                                     (stringify env root') of
                                (fs', True) \<Rightarrow> ((success, failed), fs')
                              | (fs', False) \<Rightarrow> ((0, length changes), fs'))
                        else ((success, failed), fs))))))"

definition CSSPatcher_patchMultiple ::
  "node_api \<Rightarrow> patch_env \<Rightarrow> bool \<Rightarrow> string \<Rightarrow> filesystem \<Rightarrow> string \<Rightarrow> change list
     \<Rightarrow> (nat \<times> nat) \<times> filesystem" where
  "CSSPatcher_patchMultiple api env =
     patchMultiple_body (postcss_parse env) css_patch_one api env"

definition SCSSPatcher_patchMultiple ::
  "node_api \<Rightarrow> patch_env \<Rightarrow> bool \<Rightarrow> string \<Rightarrow> filesystem \<Rightarrow> string \<Rightarrow> change list
     \<Rightarrow> (nat \<times> nat) \<times> filesystem" where
  "SCSSPatcher_patchMultiple api env =
     patchMultiple_body (scss_parse env) scss_patch_one api env"

section \<open>Orchestrator (src/agent.js)\<close>

text \<open>
  What the orchestrator takes from outside: the MD5 digest, \<open>Date.now()\<close> (as a number
  and in decimal, one reading for the whole call), \<open>cdp.getStyleSheetText\<close> (\<open>None\<close>
  when the call rejects) and \<open>sourceMapResolver.findOriginalSource\<close>, which reads the
  disk (\<open>None\<close> when it throws, \<open>Some None\<close> for \<open>null\<close>, \<open>Some (Some source)\<close>
  otherwise), besides the parameters of the resolvers and patchers.
\<close>

record agent_env =
  md5 :: "string \<Rightarrow> string"
  date_now :: int
  date_stamp :: string
  cdp_getStyleSheetText :: "string \<Rightarrow> string option"
  findOriginalSource :: "filesystem \<Rightarrow> string \<Rightarrow> string \<Rightarrow> string \<Rightarrow> string option option"
  node :: node_api
  patching :: patch_env
  urlResolver :: url_resolver

text \<open>
  The agent's state: registry, loop guard, selector resolver and the disk, and the trace of
  what the call did that a return value does not show: each call of the differ and each
  call of a patcher's \<open>patchMultiple\<close> (path, whether the SCSS patcher, the changes).
\<close>

datatype event = DifferCall string string | PatchCall string bool "change list"

record agent =
  registry :: registry
  loopGuard :: loop_guard
  selectorResolver :: selector_resolver
  disk :: filesystem
  trace :: "event list"

text \<open>\<open>/\.(scss|sass)$/\<close> and \<open>/\.(scss|sass|less)$/\<close>\<close>

definition scss_ext :: rx where
  "scss_ext = rx_seq [Lit ''.'', Alt (Lit ''scss'') (Lit ''sass''), Eos]"

definition scss_less_ext :: rx where
  "scss_less_ext = rx_seq [Lit ''.'', Alt (Lit ''scss'') (Alt (Lit ''sass'') (Lit ''less'')), Eos]"

text \<open>
  The task both handlers put on the file queue: patch the file, and when a change
  succeeded register the new text with the loop guard under the stylesheet id and under
  the file path. One call is modelled on its own, so the queue runs the task at once.
\<close>

definition patch_task ::
  "agent_env \<Rightarrow> agent \<Rightarrow> string \<Rightarrow> string \<Rightarrow> string \<Rightarrow> bool \<Rightarrow> change list \<Rightarrow> agent" where
  "patch_task env ag sid newText localPath useScss changes =
     (case (if useScss then SCSSPatcher_patchMultiple (node env) (patching env)
            else CSSPatcher_patchMultiple (node env) (patching env))
             True (date_stamp env) (disk ag) localPath changes of
        (result, disk') \<Rightarrow>
          ag\<lparr>disk := disk',
             loopGuard :=
               (if fst result > 0
                then registerWrite (md5 env) (date_now env)
                       (registerStyleSheetWrite (md5 env) (date_now env) (loopGuard ag) sid newText)
                       localPath newText
                else loopGuard ag),
             trace := trace ag @ [PatchCall localPath useScss changes]\<rparr>)"

text \<open>
  \<open>handleCSSModuleChanges\<close>, first loop: each change of type change, add or delete whose
  selector the selector resolver resolves is copied with the original selector and put
  under its module file in \<open>changesByFile\<close>, a \<open>Map\<close> in insertion order.
\<close>

fun changesByFile_push ::
  "string \<Rightarrow> change \<Rightarrow> (string \<times> change list) list \<Rightarrow> (string \<times> change list) list" where
  "changesByFile_push filePath c [] = [(filePath, [c])]"
| "changesByFile_push filePath c ((k, l) # m) =
     (if k = filePath then (k, l @ [c]) # m else (k, l) # changesByFile_push filePath c m)"

fun group_by_module ::
  "agent_env \<Rightarrow> filesystem \<Rightarrow> selector_resolver \<Rightarrow> (string \<times> change list) list \<Rightarrow> change list
     \<Rightarrow> (string \<times> change list) list \<times> selector_resolver" where
  "group_by_module env fs sr changesByFile [] = (changesByFile, sr)"
| "group_by_module env fs sr changesByFile (c # cs) =
     (if ch_type c \<noteq> ''change'' \<and> ch_type c \<noteq> ''add'' \<and> ch_type c \<noteq> ''delete''
      then group_by_module env fs sr changesByFile cs
      else
        (case selector_resolve (node env) fs (projectRoot (urlResolver env)) sr (ch_selector c) of
           (None, sr') \<Rightarrow> group_by_module env fs sr' changesByFile cs
         | (Some (filePath, orig), sr') \<Rightarrow>
             group_by_module env fs sr'
               (changesByFile_push filePath
                  (c\<lparr>ch_selector := orig, originalSelector := Some (ch_selector c)\<rparr>)
                  changesByFile)
               cs))"

definition handleCSSModuleChanges ::
  "agent_env \<Rightarrow> agent \<Rightarrow> string \<Rightarrow> change list \<Rightarrow> string \<Rightarrow> bool \<times> agent" where
  "handleCSSModuleChanges env ag sid changes newText =
     (case group_by_module env (disk ag) (selectorResolver ag) [] changes of
        (changesByFile, sr') \<Rightarrow>
          if changesByFile = [] then (False, ag\<lparr>selectorResolver := sr'\<rparr>)
          else
            (let ag' = foldl (\<lambda>a e. patch_task env a sid newText (fst e)
                                        (rx_test scss_ext (fst e)) (snd e))
                             (ag\<lparr>selectorResolver := sr'\<rparr>) changesByFile
             in (True, ag'\<lparr>registry := updateText (date_now env) (registry ag') sid newText\<rparr>)))"

text \<open>
  \<open>localPath = viteDevId || originalSource || this.urlResolver.resolve(sourceURL)\<close>
\<close>

definition sheet_localPath :: "agent_env \<Rightarrow> agent \<Rightarrow> string \<Rightarrow> string option" where
  "sheet_localPath env ag sid =
     js_or (getViteDevId (registry ag) sid)
       (js_or (getOriginalSource (registry ag) sid)
          (js_or_null (url_resolve (node env) (disk ag) (urlResolver env)
                         (getSourceURL (registry ag) sid))))"

text \<open>
  The end of \<open>handleStyleSheetChange\<close>, from the choice of the patcher on. A file that
  is not SCSS is looked up in its source map; an exception there ends the call in the
  \<open>catch\<close>, with the registry as it is.
\<close>

definition patch_resolved ::
  "agent_env \<Rightarrow> agent \<Rightarrow> string \<Rightarrow> string \<Rightarrow> change list \<Rightarrow> string \<Rightarrow> agent" where
  "patch_resolved env ag sid newText changes localPath =
     (if rx_test scss_ext localPath
      then (let ag' = patch_task env ag sid newText localPath True changes
            in ag'\<lparr>registry := updateText (date_now env) (registry ag') sid newText\<rparr>)
      else
        (case findOriginalSource env (disk ag) localPath (ch_selector (hd changes)) newText of
           None \<Rightarrow> ag
         | Some found \<Rightarrow>
             (let target = (case js_or_null found of
                              Some source \<Rightarrow>
                                (if rx_test scss_less_ext source then (source, True)
                                 else (localPath, False))
                            | None \<Rightarrow> (localPath, False));
                  ag' = patch_task env ag sid newText (fst target) (snd target) changes
              in ag'\<lparr>registry := updateText (date_now env) (registry ag') sid newText\<rparr>)))"

text \<open>
  \<open>handleStyleSheetChange(styleSheetId, freshText)\<close>. Every branch of the source is a
  branch here; the state returned is the agent when the call has settled. The new text is
  \<open>freshText || await this.cdp.getStyleSheetText(styleSheetId)\<close>; when that call rejects
  the \<open>catch\<close> ends the call.
\<close>

definition incoming_text :: "agent_env \<Rightarrow> string \<Rightarrow> string option \<Rightarrow> string option" where
  "incoming_text env sid freshText =
     (case js_or_null freshText of
        Some t \<Rightarrow> Some t
      | None \<Rightarrow> cdp_getStyleSheetText env sid)"

definition handleStyleSheetChange ::
  "agent_env \<Rightarrow> agent \<Rightarrow> string \<Rightarrow> string option \<Rightarrow> agent" where
  "handleStyleSheetChange env ag sid freshText =
     (case incoming_text env sid freshText of
        None \<Rightarrow> ag
      | Some newText \<Rightarrow>
          (let oldText = getPreviousText (registry ag) sid;
               guard = shouldIgnoreStyleSheet (md5 env) (date_now env) (loopGuard ag) sid newText;
               ag1 = ag\<lparr>loopGuard := snd guard\<rparr>
           in if fst guard then ag1
              else
                (case oldText of
                   None \<Rightarrow> ag1\<lparr>registry := updateText (date_now env) (registry ag1) sid newText\<rparr>
                 | Some old \<Rightarrow>
                     if old = newText
                     then ag1\<lparr>registry := updateText (date_now env) (registry ag1) sid newText\<rparr>
                     else
                       (let changes = findChangedDeclarations (postcss_parse (patching env)) old newText;
                            ag2 = ag1\<lparr>trace := trace ag1 @ [DifferCall old newText]\<rparr>
                        in if changes = []
                           then ag2\<lparr>registry := updateText (date_now env) (registry ag2) sid newText\<rparr>
                           else
                             (case sheet_localPath env ag2 sid of
                                None \<Rightarrow>
                                  (case handleCSSModuleChanges env ag2 sid changes newText of
                                     (True, ag3) \<Rightarrow> ag3
                                   | (False, ag3) \<Rightarrow>
                                       ag3\<lparr>registry :=
                                             updateText (date_now env) (registry ag3) sid newText\<rparr>)
                              | Some localPath \<Rightarrow>
                                  if str_includes localPath ''/.next/''
                                  then (case handleCSSModuleChanges env ag2 sid changes newText of
                                          (True, ag3) \<Rightarrow> ag3
                                        | (False, ag3) \<Rightarrow>
                                            patch_resolved env ag3 sid newText changes localPath)
                                  else patch_resolved env ag2 sid newText changes localPath)))))"

text \<open>
  The polling loop (\<open>startPolling\<close>), which is where \<open>handleStyleSheetChange\<close> is called
  with a text. \<open>getAllFreshStyleSheets\<close> gives a list of \<open>{styleSheetId, text,
  contentKey}\<close>; \<open>findFreshTextByContentKey\<close> is
  \<open>freshSheets.find(s => s.contentKey === contentKey)\<close>, then \<open>match ? match.text : null\<close>.
\<close>

record fresh_sheet =
  fresh_styleSheetId :: string
  fresh_text :: string
  contentKey :: string

definition findFreshTextByContentKey :: "fresh_sheet list \<Rightarrow> string option \<Rightarrow> string option" where
  "findFreshTextByContentKey freshSheets key =
     (case List.find (\<lambda>s. Some (contentKey s) = key) freshSheets of
        None \<Rightarrow> None
      | Some match \<Rightarrow> Some (fresh_text match))"

text \<open>
  \<open>const contentKey = oldText?.substring(0, 100).trim();\<close>
  \<open>const newText = this.cdp.findFreshTextByContentKey(freshSheets, contentKey)
     || freshSheets.find(f => f.text.length === oldText?.length)?.text;\<close>
\<close>

definition poll_newText :: "fresh_sheet list \<Rightarrow> string option \<Rightarrow> string option" where
  "poll_newText freshSheets oldText =
     js_or (findFreshTextByContentKey freshSheets (map_option (\<lambda>t. trim (take 100 t)) oldText))
       (map_option fresh_text
          (List.find (\<lambda>f. Some (length (fresh_text f)) = map_option length oldText) freshSheets))"

text \<open>
  The body of the loop for one stylesheet of the snapshot taken by \<open>getFileBasedSheets\<close>:
  \<open>sid\<close> is \<open>sheet.styleSheetId\<close> and \<open>oldText\<close> is \<open>sheet.text\<close>. No new text and no old
  text end the step early; a text that differs goes to the loop guard first, and only
  when the guard does not ignore it is \<open>handleStyleSheetChange(sid, newText)\<close> called, at
  once: the call runs up to the handler's own guard check without an \<open>await\<close>, since
  \<open>freshText ||\<close> short-circuits.
\<close>

definition poll_sheet ::
  "agent_env \<Rightarrow> agent \<Rightarrow> string \<Rightarrow> string option \<Rightarrow> fresh_sheet list \<Rightarrow> agent" where
  "poll_sheet env ag sid oldText freshSheets =
     (case js_or_null (poll_newText freshSheets oldText) of
        None \<Rightarrow> ag
      | Some newText \<Rightarrow>
          (case js_or_null oldText of
             None \<Rightarrow> ag\<lparr>registry := updateText (date_now env) (registry ag) sid newText\<rparr>
           | Some old \<Rightarrow>
               if old \<noteq> newText
               then (let guard = shouldIgnoreStyleSheet (md5 env) (date_now env) (loopGuard ag)
                                   sid newText;
                         ag1 = ag\<lparr>loopGuard := snd guard\<rparr>
                     in if fst guard
                        then ag1\<lparr>registry := updateText (date_now env) (registry ag1) sid newText\<rparr>
                        else handleStyleSheetChange env ag1 sid (Some newText))
               else ag))"

text \<open>
  The other call of \<open>handleStyleSheetChange\<close> is in the \<open>styleSheetChanged\<close> callback,
  after \<open>const freshText = await this.getFreshStyleSheetText(styleSheetId)\<close> and inside
  \<open>if (freshText)\<close>. The agent has no method of that name, so the call throws
  (\<open>lookup = None\<close>); the method of that name of the CDP client returns \<open>null\<close>.
\<close>

definition CDPClient_getFreshStyleSheetText :: "string \<Rightarrow> string option" where
  "CDPClient_getFreshStyleSheetText sid = None"

definition onStyleSheetChanged ::
  "(string \<Rightarrow> string option) option \<Rightarrow> agent_env \<Rightarrow> agent \<Rightarrow> string \<Rightarrow> agent" where
  "onStyleSheetChanged lookup env ag sid =
     (case lookup of
        None \<Rightarrow> ag
      | Some getFreshStyleSheetText \<Rightarrow>
          (case js_or_null (getFreshStyleSheetText sid) of
             None \<Rightarrow> ag
           | Some freshText \<Rightarrow>
               (case getPreviousText (registry ag) sid of
                  None \<Rightarrow> ag
                | Some oldText \<Rightarrow>
                    if oldText \<noteq> freshText
                    then handleStyleSheetChange env
                           (ag\<lparr>registry := updateText (date_now env) (registry ag) sid freshText\<rparr>)
                           sid None
                    else ag)))"

text \<open>Proof vocabulary: the declarations held by a map, whatever their key.\<close>

definition grouped :: "(string \<times> css_decl list) list \<Rightarrow> css_decl set" where
  "grouped m = (\<Union>e \<in> set m. set (snd e))"

text \<open>
  What postcss guarantees of the declarations it parses: a trailing \<open>!important\<close> is
  taken out of \<open>value\<close> and turned into \<open>important = true\<close>, so a declaration that is not
  important has no value ending in \<open> !important\<close>.
\<close>

definition important_stripped :: "css_decl list \<Rightarrow> bool" where
  "important_stripped ds =
     list_all (\<lambda>d. decl_important d \<or> \<not> suffix '' !important'' (decl_value d)) ds"

text \<open>
  A stand-in for the postcss parser on three texts, used to run the differ: any other
  text is a syntax error.
\<close>

definition example_parse :: "string \<Rightarrow> string node list option" where
  "example_parse s =
     (if s = ''a{color:red}''
      then Some [Rule ''a'' [Decl ''color'' ''red'' False (Some ((1, 3), Some (1, 11)))]]
      else if s = ''a{color:blue !important;margin:0}''
      then Some [Rule ''a'' [Decl ''color'' ''blue'' True (Some ((1, 3), Some (1, 23))),
                             Decl ''margin'' ''0'' False (Some ((1, 25), Some (1, 32)))]]
      else if s = ''a{color:blue}''
      then Some [Rule ''a'' [Decl ''color'' ''blue'' False (Some ((1, 3), Some (1, 12)))]]
      else None)"

text \<open>Proof vocabulary: the groups a pattern can bind, and a capture 1 that starts with a letter.\<close>

primrec grp_ids :: "rx \<Rightarrow> nat set" where
  "grp_ids (Lit w) = {}"
| "grp_ids (Cls rs) = {}"
| "grp_ids (NCls rs) = {}"
| "grp_ids (Cat a b) = grp_ids a \<union> grp_ids b"
| "grp_ids (Alt a b) = grp_ids a \<union> grp_ids b"
| "grp_ids (Star r) = grp_ids r"
| "grp_ids (LazyStar r) = grp_ids r"
| "grp_ids (Opt r) = grp_ids r"
| "grp_ids (Grp k r) = insert k (grp_ids r)"
| "grp_ids Eos = {}"
| "grp_ids Eol = {}"

definition letter_first :: "(nat \<times> string) list \<Rightarrow> bool" where
  "letter_first caps =
     (\<exists>c w. map_of caps 1 = Some (c # w)
            \<and> in_ranges c [(CHR ''A'', CHR ''Z''), (CHR ''a'', CHR ''z'')])"

definition binds_comp :: "rx \<Rightarrow> bool" where
  "binds_comp r = (\<forall>st st'. st' \<in> set (rx_run r st) \<longrightarrow> letter_first (snd st'))"

text \<open>
  The authored-source candidates \<open>findNextJSSource\<close> probes once the built file is
  known to be missing, as one list.
\<close>

definition source_candidates :: "node_api \<Rightarrow> string \<Rightarrow> string \<Rightarrow> string list" where
  "source_candidates api root cssPath0 =
     (let pathParts = split_slash_from [] (strip_query cssPath0);
          filename = last pathParts;
          dirname = join_slash (butlast pathParts)
      in if filename = ''layout.css'' then globalPaths api root dirname
         else if filename = ''page.css'' then modulePaths api root dirname
         else [])"

text \<open>
  A project on disk for the examples: a Next.js build with \<open>app/layout.css\<close>, its
  authored \<open>app/globals.css\<close>, a CSS module and a package under \<open>node_modules\<close>.
\<close>

definition example_fs :: filesystem where
  "example_fs =
     [''/proj'' \<mapsto> Dir [''.next'', ''app'', ''src'', ''node_modules''],
      ''/proj/.next'' \<mapsto> Dir [''static''],
      ''/proj/.next/static'' \<mapsto> Dir [''css''],
      ''/proj/.next/static/css'' \<mapsto> Dir [''app''],
      ''/proj/.next/static/css/app'' \<mapsto> Dir [''layout.css''],
      ''/proj/.next/static/css/app/layout.css'' \<mapsto> File ''a{color:red}'',
      ''/proj/app'' \<mapsto> Dir [''globals.css''],
      ''/proj/app/globals.css'' \<mapsto> File ''a{color:red}'',
      ''/proj/src'' \<mapsto> Dir [''menu.module.scss''],
      ''/proj/src/menu.module.scss'' \<mapsto> File ''.item { padding: 4px; }'',
      ''/proj/node_modules'' \<mapsto> Dir [''lib''],
      ''/proj/node_modules/lib'' \<mapsto> Dir [''style.css''],
      ''/proj/node_modules/lib/style.css'' \<mapsto> File ''a{color:red}'']"

definition example_resolver :: url_resolver where
  "example_resolver =
     \<lparr>projectRoot = ''/proj'', devServerBase = ''http://localhost:3000'', mappings = []\<rparr>"

text \<open>
  For the examples: the parsers are \<open>example_parse\<close>, writes and renames succeed, and
  the serialisation is that of postcss for a tree parsed from a text without white space
  and without a semicolon before \<open>}\<close>: a declaration is followed by \<open>;\<close> when a node
  that is not a comment comes after it in the same block, and by nothing otherwise.
\<close>

fun not_comment :: "'v node \<Rightarrow> bool" where
  "not_comment (Comment c) = False"
| "not_comment n = True"

fun show_nodes :: "string option node list \<Rightarrow> string" where
  "show_nodes [] = []"
| "show_nodes (Decl q v i src # ns) =
     q @ '':'' @ (case v of None \<Rightarrow> ''undefined'' | Some w \<Rightarrow> w)
       @ (if i then '' !important'' else [])
       @ (if list_ex not_comment ns then '';'' else []) @ show_nodes ns"
| "show_nodes (Rule sel kids # ns) = sel @ ''{'' @ show_nodes kids @ ''}'' @ show_nodes ns"
| "show_nodes (AtRule name kids # ns) = ''@'' @ name @ ''{'' @ show_nodes kids @ ''}'' @ show_nodes ns"
| "show_nodes (Comment c # ns) = ''/*'' @ c @ ''*/'' @ show_nodes ns"

definition example_env :: patch_env where
  "example_env =
     \<lparr>postcss_parse = example_parse, scss_parse = example_parse, stringify = show_nodes,
      fs_writeFile = (\<lambda>fs p c. (fs(p \<mapsto> File c), True)),
      fs_rename = (\<lambda>fs a b. (fs(b := fs a, a := None), True))\<rparr>"

text \<open>Three changes for the examples: the first two find their rule \<open>a\<close>, the third finds no rule \<open>b\<close>.\<close>

definition example_changes :: "change list" where
  "example_changes =
     [\<lparr>ch_type = ''change'', ch_selector = ''a'', ch_prop = ''color'',
       oldValue = Some ''red'', newValue = Some ''blue !important'',
       ch_important = True, ch_position = (1, 2), originalSelector = None\<rparr>,
      \<lparr>ch_type = ''add'', ch_selector = ''a'', ch_prop = ''margin'', oldValue = None,
       newValue = Some ''0'', ch_important = False, ch_position = (1, 24),
       originalSelector = None\<rparr>,
      \<lparr>ch_type = ''add'', ch_selector = ''b'', ch_prop = ''margin'', oldValue = None,
       newValue = Some ''0'', ch_important = False, ch_position = (1, 24),
       originalSelector = None\<rparr>]"

text \<open>
  An agent for the examples: the digest is the identity, the clock reads 1500, the main
  session has no text to give, no file has a source map; the registry holds stylesheet
  \<open>1\<close>, the disk is the example project.
\<close>

definition example_agent_env :: agent_env where
  "example_agent_env =
     \<lparr>md5 = (\<lambda>s. s), date_now = 1500, date_stamp = ''1500'',
      cdp_getStyleSheetText = (\<lambda>sid. None),
      findOriginalSource = (\<lambda>fs cssPath sel content. Some None),
      node = example_api, patching = example_env, urlResolver = example_resolver\<rparr>"

definition example_sheet :: "string option \<Rightarrow> string option \<Rightarrow> string option \<Rightarrow> sheet" where
  "example_sheet url txt vite =
     \<lparr>sheet_header = \<lparr>styleSheetId = ''1'', sourceURL = url, isInline = False,
                       sourceMapURL = None\<rparr>,
      sheet_text = txt, lastModified = None, viteDevId = vite, originalSource = None\<rparr>"

definition example_agent :: "sheet \<Rightarrow> agent" where
  "example_agent sh =
     \<lparr>registry = [''1'' \<mapsto> sh], loopGuard = new_LoopGuard None,
      selectorResolver = \<lparr>sr_cache = Map.empty, sr_fileCache = Map.empty\<rparr>,
      disk = example_fs, trace = []\<rparr>"


definition vite_sheet :: "string \<Rightarrow> sheet" where
  "vite_sheet p = example_sheet None (Some ''a{color:red}'') (Some p)"







text \<open>
  Where a path lies, in the terms of \<open>path.join\<close>: \<open>join_chain api dir [e1, ..., ek]\<close> is
  the directory reached from \<open>dir\<close> by joining the names one after the other, as
  \<open>searchFiles\<close> does on its way down. A module path of a project root is a file named
  \<open><Comp>.module.scss\<close> or \<open><Comp>.module.css\<close> in a directory reached from the root
  through at most ten names, none of them \<open>node_modules\<close>, \<open>.next\<close>, \<open>.git\<close>, \<open>dist\<close> or
  \<open>build\<close>.
\<close>

fun join_chain :: "node_api \<Rightarrow> string \<Rightarrow> string list \<Rightarrow> string" where
  "join_chain api dir [] = dir"
| "join_chain api dir (e # es) = join_chain api (path_join api [dir, e]) es"

definition module_path :: "node_api \<Rightarrow> string \<Rightarrow> string \<Rightarrow> bool" where
  "module_path api root p =
     (\<exists>es comp. length es \<le> 10 \<and> set es \<inter> set excludeDirs = {}
        \<and> (p = path_join api [join_chain api root es, comp @ ''.module.scss'']
            \<or> p = path_join api [join_chain api root es, comp @ ''.module.css'']))"

text \<open>The selector resolver's cache holds module paths only.\<close>

definition cache_outside :: "agent_env \<Rightarrow> agent \<Rightarrow> bool" where
  "cache_outside env ag =
     (\<forall>sel q orig. sr_cache (selectorResolver ag) sel = Some (q, orig)
        \<longrightarrow> module_path (node env) (projectRoot (urlResolver env)) q)"

section \<open>Theorems\<close>

subsection \<open>Loop guard\<close>

text \<open>
  Claim C5. For every key and content, \<open>shouldIgnore\<close> answers true exactly when the
  guard holds an entry for the key whose timestamp is within the TTL of now
  (\<open>now - timestamp \<le> ttl\<close>) and whose stored hash equals the hash of the content.
  When the entry is older than the TTL the call deletes it and answers false; when there
  is no entry it answers false and leaves the guard as it was.
\<close>

theorem shouldIgnore_iff_fresh_matching_entry:
  "(fst (shouldIgnore H now g key content) \<longleftrightarrow>
      (\<exists>r. recentWrites g key = Some r \<and> now - timestamp r \<le> ttl g \<and> hash r = H content))
   \<and> (\<forall>r. recentWrites g key = Some r \<and> ttl g < now - timestamp r \<longrightarrow>
          shouldIgnore H now g key content =
            (False, g\<lparr>recentWrites := (recentWrites g)(key := None)\<rparr>))
   \<and> (\<forall>r. recentWrites g key = Some r \<and> now - timestamp r \<le> ttl g \<longrightarrow>
          snd (shouldIgnore H now g key content) = g)
   \<and> (recentWrites g key = None \<longrightarrow> shouldIgnore H now g key content = (False, g))"
  by (auto simp: shouldIgnore_def split: option.splits)

text \<open>
  The theorem at concrete guards (the hash is the identity here): an entry written at
  time 1000 with TTL 2000 is honoured at time 3000 for the same content, refused for
  other content, purged at time 3001, and an unknown key is not ignored.
\<close>

theorem shouldIgnore_iff_fresh_matching_entry_witness:
  "fst (shouldIgnore (\<lambda>s. s) 3000
          (registerWrite (\<lambda>s. s) 1000 (new_LoopGuard None) ''/p/a.css'' ''x'') ''/p/a.css'' ''x'')
   \<and> \<not> fst (shouldIgnore (\<lambda>s. s) 3000
          (registerWrite (\<lambda>s. s) 1000 (new_LoopGuard None) ''/p/a.css'' ''x'') ''/p/a.css'' ''y'')
   \<and> shouldIgnore (\<lambda>s. s) 3001
          (registerWrite (\<lambda>s. s) 1000 (new_LoopGuard None) ''/p/a.css'' ''x'') ''/p/a.css'' ''x''
        = (False, new_LoopGuard None)
   \<and> shouldIgnore (\<lambda>s. s) 3000 (new_LoopGuard None) ''/p/a.css'' ''x''
        = (False, new_LoopGuard None)"
  using shouldIgnore_iff_fresh_matching_entry
          [of "\<lambda>s. s" 3000 "registerWrite (\<lambda>s. s) 1000 (new_LoopGuard None) ''/p/a.css'' ''x''"
              "''/p/a.css''" "''x''"]
        shouldIgnore_iff_fresh_matching_entry
          [of "\<lambda>s. s" 3000 "registerWrite (\<lambda>s. s) 1000 (new_LoopGuard None) ''/p/a.css'' ''x''"
              "''/p/a.css''" "''y''"]
        shouldIgnore_iff_fresh_matching_entry
          [of "\<lambda>s. s" 3001 "registerWrite (\<lambda>s. s) 1000 (new_LoopGuard None) ''/p/a.css'' ''x''"
              "''/p/a.css''" "''x''"]
        shouldIgnore_iff_fresh_matching_entry
          [of "\<lambda>s. s" 3000 "new_LoopGuard None" "''/p/a.css''" "''x''"]
  by (simp add: registerWrite_def new_LoopGuard_def)

subsection \<open>Declaration differ\<close>

text \<open>The differ run on the example texts.\<close>

lemma ex_decls:
  "parseDeclarations example_parse ''a{color:red}'' =
     [\<lparr>decl_selector = ''a'', decl_prop = ''color'', decl_value = ''red'', decl_important = False,
       decl_start = (1, 2), decl_end = Some (1, 10)\<rparr>]"
  "parseDeclarations example_parse ''a{color:blue !important;margin:0}'' =
     [\<lparr>decl_selector = ''a'', decl_prop = ''color'', decl_value = ''blue'', decl_important = True,
       decl_start = (1, 2), decl_end = Some (1, 22)\<rparr>,
      \<lparr>decl_selector = ''a'', decl_prop = ''margin'', decl_value = ''0'', decl_important = False,
       decl_start = (1, 24), decl_end = Some (1, 31)\<rparr>]"
  by (simp_all add: parseDeclarations_def example_parse_def List.map_filter_simps to_declaration_def parent_name_def)

lemma ex_diff: "findChangedDeclarations example_parse ''a{color:red}'' ''a{color:blue !important;margin:0}'' =
  [\<lparr>ch_type = ''change'', ch_selector = ''a'', ch_prop = ''color'', oldValue = Some ''red'',
      newValue = Some ''blue !important'', ch_important = True, ch_position = (1, 2),
      originalSelector = None\<rparr>,
   \<lparr>ch_type = ''add'', ch_selector = ''a'', ch_prop = ''margin'', oldValue = None,
      newValue = Some ''0'', ch_important = False, ch_position = (1, 24),
      originalSelector = None\<rparr>]"
  by (simp add: findChangedDeclarations_def ex_decls declMap_def decl_key_def changed_in_def
    declMap_get_def changed_at_def modify_change_def add_change_def with_important_def deleted_in_def upt_rec)

lemma ex_stripped:
  "important_stripped (parseDeclarations example_parse ''a{color:red}'')"
  "important_stripped (parseDeclarations example_parse ''a{color:blue !important;margin:0}'')"
  by (simp_all add: ex_decls important_stripped_def suffix_to_prefix)


lemma declMap_push_keys: "fst ` set (declMap_push key d m) = insert key (fst ` set m)"
  by (induction key d m rule: declMap_push.induct) auto

lemma declMap_push_distinct:
  "distinct (map fst m) \<Longrightarrow> distinct (map fst (declMap_push key d m))"
proof (induction m)
  case Nil
  then show ?case by simp
next
  case (Cons e m)
  obtain k l where e: "e = (k, l)" by (cases e)
  have "fst ` set (declMap_push key d m) = insert key (fst ` set m)"
    by (rule declMap_push_keys)
  with Cons e show ?case by (auto simp: image_iff)
qed

lemma foldl_push_distinct:
  "distinct (map fst m) \<Longrightarrow>
   distinct (map fst (foldl (\<lambda>m d. declMap_push (decl_key d) d m) m ds))"
  by (induction ds arbitrary: m) (simp_all add: declMap_push_distinct)

lemma declMap_distinct: "distinct (map fst (declMap ds))"
  unfolding declMap_def by (rule foldl_push_distinct) simp

lemma declMap_get_member:
  "(key, l) \<in> set (declMap ds) \<Longrightarrow> declMap_get (declMap ds) key = l"
  by (simp add: declMap_get_def declMap_distinct)

lemma changed_at_same: "i < length l \<Longrightarrow> changed_at l l i = []"
  by (simp add: changed_at_def)

lemma changed_in_same: "e \<in> set (declMap ds) \<Longrightarrow> changed_in (declMap ds) e = []"
  by (cases e) (simp add: changed_in_def declMap_get_member changed_at_same)

lemma deleted_in_same: "e \<in> set (declMap ds) \<Longrightarrow> deleted_in (declMap ds) e = []"
  by (cases e) (simp add: deleted_in_def declMap_get_member)

text \<open>
  Claim C6. Differ idempotence: for every CSS text \<open>A\<close>, whatever the parser makes of
  it (in particular when it parses), \<open>findChangedDeclarations(A, A)\<close> is the empty list.
\<close>

theorem findChangedDeclarations_same_text_is_empty: "findChangedDeclarations parse A A = []"
  by (simp add: findChangedDeclarations_def Let_def changed_in_same deleted_in_same)

text \<open>The same at a text that parses and holds a declaration.\<close>

theorem findChangedDeclarations_same_text_is_empty_witness:
  "example_parse ''a{color:red}'' \<noteq> None
   \<and> parseDeclarations example_parse ''a{color:red}'' \<noteq> []
   \<and> findChangedDeclarations example_parse ''a{color:red}'' ''a{color:red}'' = []"
  using findChangedDeclarations_same_text_is_empty [of example_parse "''a{color:red}''"]
  by (simp add: ex_decls) (simp add: example_parse_def)

lemma declMap_push_decls: "grouped (declMap_push key d m) = insert d (grouped m)"
  by (induction key d m rule: declMap_push.induct) (auto simp: grouped_def)

lemma foldl_push_decls:
  "grouped (foldl (\<lambda>m d. declMap_push (decl_key d) d m) m ds) = grouped m \<union> set ds"
  by (induction ds arbitrary: m) (simp_all add: declMap_push_decls)

lemma declMap_decls: "grouped (declMap ds) = set ds"
  unfolding declMap_def by (simp add: foldl_push_decls) (simp add: grouped_def)

lemma declMap_entry_subset: "(key, l) \<in> set (declMap ds) \<Longrightarrow> set l \<subseteq> set ds"
  using declMap_decls [of ds] by (force simp: grouped_def)

lemma declMap_get_subset: "set (declMap_get (declMap ds) key) \<subseteq> set ds"
proof (cases "map_of (declMap ds) key")
  case None
  then show ?thesis by (simp add: declMap_get_def)
next
  case (Some l)
  then have "(key, l) \<in> set (declMap ds)" by (rule map_of_SomeD)
  with Some show ?thesis by (simp add: declMap_get_def declMap_entry_subset)
qed

lemma with_important_neq:
  assumes "decl_value a \<noteq> decl_value b \<or> decl_important a \<noteq> decl_important b"
    and "decl_important a \<or> \<not> suffix '' !important'' (decl_value a)"
    and "decl_important b \<or> \<not> suffix '' !important'' (decl_value b)"
  shows "with_important a \<noteq> with_important b"
proof
  assume eq: "with_important a = with_important b"
  show False
  proof (cases "decl_important a = decl_important b")
    case True
    with eq assms(1) show False by (simp add: with_important_def split: if_splits)
  next
    case False
    then consider "decl_important a" "\<not> decl_important b" | "\<not> decl_important a" "decl_important b"
      by blast
    then show False
    proof cases
      case 1
      with eq have "decl_value b = decl_value a @ '' !important''" by (simp add: with_important_def)
      then have "suffix '' !important'' (decl_value b)" by (simp add: suffix_def)
      with 1 assms(3) show False by simp
    next
      case 2
      with eq have "decl_value a = decl_value b @ '' !important''" by (simp add: with_important_def)
      then have "suffix '' !important'' (decl_value a)" by (simp add: suffix_def)
      with 2 assms(2) show False by simp
    qed
  qed
qed

lemma changed_at_kinds:
  assumes "c \<in> set (changed_at ol nl i)" and "i < length nl"
  shows "(ch_type c = ''add'' \<and> oldValue c = None \<and> newValue c \<noteq> None)
       \<or> (ch_type c = ''change'' \<and> i < length ol
            \<and> oldValue c = Some (with_important (ol ! i))
            \<and> newValue c = Some (with_important (nl ! i))
            \<and> (decl_value (ol ! i) \<noteq> decl_value (nl ! i)
                 \<or> decl_important (ol ! i) \<noteq> decl_important (nl ! i)))"
  using assms by (auto simp: changed_at_def add_change_def modify_change_def split: if_splits)

lemma changed_in_kinds:
  assumes "c \<in> set (changed_in (declMap ods) e)" and "e \<in> set (declMap nds)"
  shows "(ch_type c = ''add'' \<and> oldValue c = None \<and> newValue c \<noteq> None)
       \<or> (ch_type c = ''change'' \<and>
            (\<exists>a \<in> set ods. \<exists>b \<in> set nds.
               oldValue c = Some (with_important a) \<and> newValue c = Some (with_important b)
               \<and> (decl_value a \<noteq> decl_value b \<or> decl_important a \<noteq> decl_important b)))"
proof -
  obtain key nl where e: "e = (key, nl)" by (cases e)
  let ?ol = "declMap_get (declMap ods) key"
  from assms(1) e obtain i where i: "i < length nl" "c \<in> set (changed_at ?ol nl i)"
    by (auto simp: changed_in_def)
  from changed_at_kinds [OF i(2) i(1)] show ?thesis
  proof
    assume "ch_type c = ''add'' \<and> oldValue c = None \<and> newValue c \<noteq> None"
    then show ?thesis by simp
  next
    assume h: "ch_type c = ''change'' \<and> i < length ?ol
            \<and> oldValue c = Some (with_important (?ol ! i))
            \<and> newValue c = Some (with_important (nl ! i))
            \<and> (decl_value (?ol ! i) \<noteq> decl_value (nl ! i)
                 \<or> decl_important (?ol ! i) \<noteq> decl_important (nl ! i))"
    then have "?ol ! i \<in> set ?ol" by simp
    then have a: "?ol ! i \<in> set ods" using declMap_get_subset by blast
    have "nl ! i \<in> set nl" using i(1) by simp
    then have b: "nl ! i \<in> set nds" using declMap_entry_subset assms(2) e by blast
    from h a b show ?thesis by blast
  qed
qed

lemma deleted_in_kinds:
  assumes "c \<in> set (deleted_in m e)"
  shows "ch_type c = ''delete'' \<and> oldValue c \<noteq> None \<and> newValue c = None"
  using assms by (cases e) (auto simp: deleted_in_def delete_change_def)

text \<open>
  Claim C7. Every change the differ emits is of type add, change or delete, and
  \<^item> an add has no old value and has a new value;
  \<^item> a change (the spec's modify) has both values, and they differ as strings, given
    that the parser has stripped \<open>!important\<close> from the values as postcss does;
  \<^item> a delete has an old value and no new value.
\<close>

theorem findChangedDeclarations_kind_invariants:
  assumes "c \<in> set (findChangedDeclarations parse oldCss newCss)"
  shows "(ch_type c = ''add'' \<or> ch_type c = ''change'' \<or> ch_type c = ''delete'')
     \<and> (ch_type c = ''add'' \<longrightarrow> oldValue c = None \<and> newValue c \<noteq> None)
     \<and> (ch_type c = ''change'' \<longrightarrow>
            oldValue c \<noteq> None \<and> newValue c \<noteq> None
            \<and> (important_stripped (parseDeclarations parse oldCss)
                 \<and> important_stripped (parseDeclarations parse newCss)
                 \<longrightarrow> oldValue c \<noteq> newValue c))
     \<and> (ch_type c = ''delete'' \<longrightarrow> oldValue c \<noteq> None \<and> newValue c = None)"
proof -
  let ?ods = "parseDeclarations parse oldCss" and ?nds = "parseDeclarations parse newCss"
  from assms consider
      e where "e \<in> set (declMap ?nds)" "c \<in> set (changed_in (declMap ?ods) e)"
    | e where "e \<in> set (declMap ?ods)" "c \<in> set (deleted_in (declMap ?nds) e)"
    by (auto simp: findChangedDeclarations_def Let_def)
  then show ?thesis
  proof cases
    case 1
    from changed_in_kinds [OF 1(2) 1(1)] show ?thesis
    proof
      assume "ch_type c = ''add'' \<and> oldValue c = None \<and> newValue c \<noteq> None"
      then show ?thesis by simp
    next
      assume "ch_type c = ''change'' \<and>
            (\<exists>a \<in> set ?ods. \<exists>b \<in> set ?nds.
               oldValue c = Some (with_important a) \<and> newValue c = Some (with_important b)
               \<and> (decl_value a \<noteq> decl_value b \<or> decl_important a \<noteq> decl_important b))"
      then obtain a b where ab: "ch_type c = ''change''" "a \<in> set ?ods" "b \<in> set ?nds"
          "oldValue c = Some (with_important a)" "newValue c = Some (with_important b)"
          "decl_value a \<noteq> decl_value b \<or> decl_important a \<noteq> decl_important b"
        by blast
      have "oldValue c \<noteq> newValue c"
        if "important_stripped ?ods" "important_stripped ?nds"
      proof -
        from that ab(2,3) have "decl_important a \<or> \<not> suffix '' !important'' (decl_value a)"
          "decl_important b \<or> \<not> suffix '' !important'' (decl_value b)"
          by (auto simp: important_stripped_def list_all_iff)
        from with_important_neq [OF ab(6) this] ab(4,5) show ?thesis by simp
      qed
      with ab show ?thesis by simp
    qed
  next
    case 2
    from deleted_in_kinds [OF 2(2)] show ?thesis by simp
  qed
qed

text \<open>
  The theorem at the change the differ emits for \<open>color: red\<close> becoming
  \<open>color: blue !important\<close>.
\<close>

theorem findChangedDeclarations_kind_invariants_witness:
  "(let c = \<lparr>ch_type = ''change'', ch_selector = ''a'', ch_prop = ''color'',
              oldValue = Some ''red'', newValue = Some ''blue !important'',
              ch_important = True, ch_position = (1, 2), originalSelector = None\<rparr>
    in c \<in> set (findChangedDeclarations example_parse
                    ''a{color:red}'' ''a{color:blue !important;margin:0}'')
       \<and> important_stripped (parseDeclarations example_parse ''a{color:red}'')
       \<and> important_stripped
             (parseDeclarations example_parse ''a{color:blue !important;margin:0}'')
       \<and> ch_type c = ''change'' \<and> oldValue c \<noteq> None \<and> newValue c \<noteq> None
       \<and> oldValue c \<noteq> newValue c)"
proof -
  let ?c = "\<lparr>ch_type = ''change'', ch_selector = ''a'', ch_prop = ''color'',
              oldValue = Some ''red'', newValue = Some ''blue !important'',
              ch_important = True, ch_position = (1, 2), originalSelector = None\<rparr>"
  have m: "?c \<in> set (findChangedDeclarations example_parse
                    ''a{color:red}'' ''a{color:blue !important;margin:0}'')"
    by (simp add: ex_diff)
  from findChangedDeclarations_kind_invariants [OF m] ex_stripped m
  show ?thesis by (simp add: Let_def)
qed

subsection \<open>Selector resolver\<close>

lemma rx_iter_keeps:
  assumes "\<And>a b. b \<in> set (f a) \<Longrightarrow> map_of (snd b) k = map_of (snd a) k"
    and "st' \<in> set (rx_iter n f st)"
  shows "map_of (snd st') k = map_of (snd st) k"
  using assms(2)
proof (induction n arbitrary: st)
  case 0
  then show ?case by simp
next
  case (Suc n)
  from Suc.prems consider "st' = st"
    | s1 where "s1 \<in> set (f st)" "st' \<in> set (rx_iter n f s1)"
    by fastforce
  then show ?case
  proof cases
    case 1
    then show ?thesis by simp
  next
    case 2
    from Suc.IH [OF 2(2)] assms(1) [OF 2(1)] show ?thesis by simp
  qed
qed

lemma rx_iter_lazy_keeps:
  assumes "\<And>a b. b \<in> set (f a) \<Longrightarrow> map_of (snd b) k = map_of (snd a) k"
    and "st' \<in> set (rx_iter_lazy n f st)"
  shows "map_of (snd st') k = map_of (snd st) k"
  using assms(2)
proof (induction n arbitrary: st)
  case 0
  then show ?case by simp
next
  case (Suc n)
  from Suc.prems consider "st' = st"
    | s1 where "s1 \<in> set (f st)" "st' \<in> set (rx_iter_lazy n f s1)"
    by fastforce
  then show ?case
  proof cases
    case 1
    then show ?thesis by simp
  next
    case 2
    from Suc.IH [OF 2(2)] assms(1) [OF 2(1)] show ?thesis by simp
  qed
qed

lemma rx_run_keeps:
  "st' \<in> set (rx_run r st) \<Longrightarrow> k \<notin> grp_ids r \<Longrightarrow> map_of (snd st') k = map_of (snd st) k"
proof (induction r arbitrary: st st')
  case (Cat a b)
  from Cat.prems obtain s1 where 1: "s1 \<in> set (rx_run a st)" and 2: "st' \<in> set (rx_run b s1)"
    by auto
  from Cat.prems have "k \<notin> grp_ids a" "k \<notin> grp_ids b" by simp_all
  with Cat.IH(1) [OF 1] Cat.IH(2) [OF 2] show ?case by simp
next
  case (Grp j r)
  from Grp.prems obtain s1 where 1: "s1 \<in> set (rx_run r st)"
    and 2: "snd st' = (j, take (length (fst st) - length (fst s1)) (fst st)) # snd s1"
    by auto
  from Grp.prems have "k \<noteq> j" "k \<notin> grp_ids r" by simp_all
  with Grp.IH [OF 1] 2 show ?case by simp
next
  case (Alt a b)
  from Alt.prems consider "st' \<in> set (rx_run a st)" "k \<notin> grp_ids a"
    | "st' \<in> set (rx_run b st)" "k \<notin> grp_ids b" by auto
  then show ?case
  proof cases
    case 1
    then show ?thesis by (rule Alt.IH(1))
  next
    case 2
    then show ?thesis by (rule Alt.IH(2))
  qed
next
  case (Opt r)
  from Opt.prems consider "st' \<in> set (rx_run r st)" "k \<notin> grp_ids r" | "st' = st" by auto
  then show ?case
  proof cases
    case 1
    then show ?thesis by (rule Opt.IH)
  next
    case 2
    then show ?thesis by simp
  qed
next
  case (Star r)
  from Star.prems have 1: "st' \<in> set (rx_iter (length (fst st)) (rx_run r) st)"
    and k: "k \<notin> grp_ids r" by simp_all
  show ?case by (rule rx_iter_keeps [OF _ 1]) (rule Star.IH [OF _ k])
next
  case (LazyStar r)
  from LazyStar.prems have 1: "st' \<in> set (rx_iter_lazy (length (fst st)) (rx_run r) st)"
    and k: "k \<notin> grp_ids r" by simp_all
  show ?case by (rule rx_iter_lazy_keeps [OF _ 1]) (rule LazyStar.IH [OF _ k])
next
  case (Lit w)
  from this(1) show ?case by (simp split: if_splits)
next
  case (Cls rs)
  from this(1) show ?case by (cases "fst st") (simp_all split: if_splits)
next
  case (NCls rs)
  from this(1) show ?case by (cases "fst st") (simp_all split: if_splits)
next
  case Eos
  from this(1) show ?case by (simp split: if_splits)
next
  case Eol
  from this(1) show ?case by (cases "fst st") (simp_all split: if_splits)
qed

lemma rx_iter_shorter:
  assumes "st' \<in> set (rx_iter n f st)"
  shows "length (fst st') \<le> length (fst st)"
  using assms
proof (induction n arbitrary: st)
  case 0
  then show ?case by simp
next
  case (Suc n)
  from Suc.prems consider "st' = st"
    | s1 where "length (fst s1) < length (fst st)" "st' \<in> set (rx_iter n f s1)"
    by fastforce
  then show ?case
  proof cases
    case 1
    then show ?thesis by simp
  next
    case 2
    from Suc.IH [OF 2(2)] 2(1) show ?thesis by simp
  qed
qed

lemma comp_group_run:
  assumes "st' \<in> set (rx_run comp_group st)"
  shows "\<exists>c cs st1. fst st = c # cs
           \<and> in_ranges c [(CHR ''A'', CHR ''Z''), (CHR ''a'', CHR ''z'')]
           \<and> st1 \<in> set (rx_iter (length cs) (rx_run alnum) (cs, snd st))
           \<and> snd st' = (1, take (length (fst st) - length (fst st1)) (fst st)) # snd st1"
proof (cases "fst st")
  case Nil
  with assms show ?thesis by (simp add: comp_group_def alpha_def)
next
  case (Cons c cs)
  show ?thesis
  proof (cases "in_ranges c [(CHR ''A'', CHR ''Z''), (CHR ''a'', CHR ''z'')]")
    case True
    with assms Cons obtain st1 where
      1: "st1 \<in> set (rx_iter (length cs) (rx_run alnum) (cs, snd st))"
      and 2: "st' = (fst st1, (1, take (length (fst st) - length (fst st1)) (fst st)) # snd st1)"
      unfolding comp_group_def alpha_def by auto
    from 2 have "snd st' = (1, take (length (fst st) - length (fst st1)) (fst st)) # snd st1"
      by simp
    with Cons True 1 show ?thesis by blast
  next
    case False
    with assms Cons show ?thesis unfolding comp_group_def alpha_def by simp
  qed
qed

lemma binds_comp_group: "binds_comp comp_group"
proof -
  have "letter_first (snd st')" if "st' \<in> set (rx_run comp_group st)" for st st'
  proof -
    from comp_group_run [OF that] obtain c cs st1 where st: "fst st = c # cs"
        and c: "in_ranges c [(CHR ''A'', CHR ''Z''), (CHR ''a'', CHR ''z'')]"
        and st1: "st1 \<in> set (rx_iter (length cs) (rx_run alnum) (cs, snd st))"
        and st': "snd st' = (1, take (length (fst st) - length (fst st1)) (fst st)) # snd st1"
      by blast
    from rx_iter_shorter [OF st1] have "length (fst st1) \<le> length cs" by simp
    then obtain w where "take (length (fst st) - length (fst st1)) (fst st) = c # w"
      using st by (cases "length (fst st) - length (fst st1)") auto
    with c st' show ?thesis by (auto simp: letter_first_def)
  qed
  then show ?thesis unfolding binds_comp_def by blast
qed

lemma rx_run_Cat:
  "st'' \<in> set (rx_run (Cat a b) st) \<longleftrightarrow> (\<exists>st' \<in> set (rx_run a st). st'' \<in> set (rx_run b st'))"
  by simp

lemma binds_comp_Cat_right: "binds_comp b \<Longrightarrow> binds_comp (Cat a b)"
  unfolding binds_comp_def rx_run_Cat by blast

lemma binds_comp_Cat_left:
  assumes "binds_comp a" and "1 \<notin> grp_ids b"
  shows "binds_comp (Cat a b)"
proof -
  have "letter_first (snd st'')" if "st'' \<in> set (rx_run (Cat a b) st)" for st st''
  proof -
    from that obtain st' where 1: "st' \<in> set (rx_run a st)" and 2: "st'' \<in> set (rx_run b st')"
      unfolding rx_run_Cat by blast
    from assms(1) 1 have "letter_first (snd st')" unfolding binds_comp_def by blast
    moreover from rx_run_keeps [OF 2 assms(2)] have "map_of (snd st'') 1 = map_of (snd st') 1" .
    ultimately show ?thesis by (simp add: letter_first_def)
  qed
  then show ?thesis unfolding binds_comp_def by blast
qed

lemma grp_ids_simps:
  "grp_ids (Plus r) = grp_ids r" "grp_ids alnum = {}" "grp_ids name_group = {2}"
  by (simp_all add: Plus_def alnum_def name_group_def alpha_def alnum_dash_def)

lemma binds_comp_patterns: "list_all binds_comp selector_patterns"
  by (simp add: selector_patterns_def nextjsPattern_def pathNextjsPattern_def bemPattern_def
        pathPattern_def simplePattern_def binds_comp_Cat_right binds_comp_Cat_left
        binds_comp_group grp_ids_simps)

lemma rx_match_binds:
  assumes "binds_comp r" and "rx_match r s = Some m"
  shows "letter_first m"
proof -
  from assms(2) obtain st rest where "rx_run r (s, []) = st # rest" "m = snd st"
    by (auto simp: rx_match_def split: list.splits)
  then have "st \<in> set (rx_run r (s, []))" by simp
  with assms(1) \<open>m = snd st\<close> show ?thesis unfolding binds_comp_def by blast
qed

lemma first_match_binds:
  "list_all binds_comp rs \<Longrightarrow> first_match rs s = Some m \<Longrightarrow> letter_first m"
  by (induction rs) (auto split: option.splits dest: rx_match_binds)

text \<open>
  Claim C8, as the code has it. Whenever \<open>parseCSSModuleSelector\<close> recognises a
  selector, the component it captured starts with an ASCII letter, capital or lowercase
  (the class \<open>[A-Za-z]\<close> of all five patterns). When no pattern matches, the parser
  returns none, and so does \<open>SelectorResolver.resolve\<close> for a selector that is not in
  its cache, leaving the resolver as it was.
\<close>

theorem parseCSSModuleSelector_component_starts_with_letter:
  "(\<forall>p. parseCSSModuleSelector selector = Some p \<longrightarrow>
         (\<exists>c w. component p = c # w
                \<and> in_ranges c [(CHR ''A'', CHR ''Z''), (CHR ''a'', CHR ''z'')]))
   \<and> (parseCSSModuleSelector selector = None \<and> sr_cache sr selector = None \<longrightarrow>
         selector_resolve api fs root sr selector = (None, sr))"
proof -
  have "\<exists>c w. component p = c # w \<and> in_ranges c [(CHR ''A'', CHR ''Z''), (CHR ''a'', CHR ''z'')]"
    if "parseCSSModuleSelector selector = Some p" for p
  proof -
    from that obtain m
      where m: "first_match selector_patterns (hd (split_ws selector)) = Some m"
        and p: "component p = group m 1"
      by (auto simp: parseCSSModuleSelector_def Let_def split: option.splits)
    from first_match_binds [OF binds_comp_patterns m] p show ?thesis
      by (auto simp: letter_first_def group_def)
  qed
  moreover have "selector_resolve api fs root sr selector = (None, sr)"
    if "parseCSSModuleSelector selector = None" "sr_cache sr selector = None"
    using that by (simp add: selector_resolve_def)
  ultimately show ?thesis by blast
qed

text \<open>
  The parser and the resolver on selectors with a lowercase, a capital and a digit first
  character of the component.
\<close>

lemma parse_examples:
  "parseCSSModuleSelector ''.menu_item__abc''
     = Some \<lparr>component = ''menu'', className = ''item'', parsed_originalSelector = ''.item'',
             hasNested = False, nestedParts = []\<rparr>"
  "parseCSSModuleSelector ''.Menu_item__abc123 .x''
     = Some \<lparr>component = ''Menu'', className = ''item'', parsed_originalSelector = ''.item'',
             hasNested = True, nestedParts = [''.x'']\<rparr>"
  "parseCSSModuleSelector ''.9enu_item__abc'' = None"
  by code_simp+

lemma resolve_example:
  "fst (selector_resolve example_api example_fs ''/proj''
          \<lparr>sr_cache = Map.empty, sr_fileCache = Map.empty\<rparr> ''.menu_item__abc'')
     = Some (''/proj/src/menu.module.scss'', ''.item'')"
  by code_simp

theorem parseCSSModuleSelector_component_starts_with_letter_witness:
  "parseCSSModuleSelector ''.menu_item__abc'' \<noteq> None
   \<and> (\<exists>c w. ''menu'' = c # w \<and> in_ranges c [(CHR ''A'', CHR ''Z''), (CHR ''a'', CHR ''z'')])
   \<and> parseCSSModuleSelector ''.9enu_item__abc'' = None
   \<and> selector_resolve example_api example_fs ''/proj''
         \<lparr>sr_cache = Map.empty, sr_fileCache = Map.empty\<rparr> ''.9enu_item__abc''
       = (None, \<lparr>sr_cache = Map.empty, sr_fileCache = Map.empty\<rparr>)"
  using parseCSSModuleSelector_component_starts_with_letter
          [of "''.menu_item__abc''" "\<lparr>sr_cache = Map.empty, sr_fileCache = Map.empty\<rparr>"
              example_api example_fs "''/proj''"]
        parseCSSModuleSelector_component_starts_with_letter
          [of "''.9enu_item__abc''" "\<lparr>sr_cache = Map.empty, sr_fileCache = Map.empty\<rparr>"
              example_api example_fs "''/proj''"]
  by (simp add: parse_examples)

text \<open>
  The claim as the specification words it fails: the component of
  \<open>.menu_item__abc\<close> begins with a lowercase letter, the parser recognises the
  selector and the resolver finds its module file.
\<close>

theorem lowercase_component_is_recognised:
  "parseCSSModuleSelector ''.menu_item__abc''
     = Some \<lparr>component = ''menu'', className = ''item'', parsed_originalSelector = ''.item'',
             hasNested = False, nestedParts = []\<rparr>
   \<and> fst (selector_resolve example_api example_fs ''/proj''
            \<lparr>sr_cache = Map.empty, sr_fileCache = Map.empty\<rparr> ''.menu_item__abc'')
       = Some (''/proj/src/menu.module.scss'', ''.item'')"
  by (simp add: parse_examples resolve_example)

subsection \<open>URL resolver\<close>

lemma find_Some_exists: "List.find P xs = Some x \<Longrightarrow> P x"
  by (induction xs) (auto split: if_splits)

text \<open>
  Claim C4, as the code has it. \<open>findNextJSSource\<close> returns the path inside
  \<open>.next/static/css/\<close> whenever that file exists, before it probes any authored source.
  Only when the built file is missing does it probe the candidates (for \<open>layout.css\<close>:
  \<open>globals.css\<close>, \<open>global.css\<close>, \<open>globals.scss\<close>, \<open>global.scss\<close> in the directory
  of the URL, then \<open>globals.css\<close> and \<open>global.scss\<close> in \<open>app/\<close> and in \<open>styles/\<close>;
  for \<open>page.css\<close>: the sibling \<open>page.module.scss\<close>, \<open>page.module.css\<close>,
  \<open>styles.module.scss\<close>, \<open>styles.module.css\<close>) and returns the first that exists, or
  none. Whatever it returns exists on disk.
\<close>

theorem findNextJSSource_build_file_first:
  "(existsSync fs (nextBuildPath api root cssPath) \<longrightarrow>
      findNextJSSource api fs root cssPath = Some (nextBuildPath api root cssPath))
   \<and> (\<not> existsSync fs (nextBuildPath api root cssPath) \<longrightarrow>
      findNextJSSource api fs root cssPath
        = List.find (existsSync fs) (source_candidates api root cssPath))
   \<and> (\<forall>p. findNextJSSource api fs root cssPath = Some p \<longrightarrow> existsSync fs p)"
proof -
  have 1: "findNextJSSource api fs root cssPath = Some (nextBuildPath api root cssPath)"
    if "existsSync fs (nextBuildPath api root cssPath)"
    using that by (simp add: findNextJSSource_def nextBuildPath_def Let_def)
  have 2: "findNextJSSource api fs root cssPath
             = List.find (existsSync fs) (source_candidates api root cssPath)"
    if "\<not> existsSync fs (nextBuildPath api root cssPath)"
    using that
    by (simp add: findNextJSSource_def nextBuildPath_def source_candidates_def Let_def
             split: option.splits)
  have 3: "existsSync fs p" if "findNextJSSource api fs root cssPath = Some p" for p
  proof (cases "existsSync fs (nextBuildPath api root cssPath)")
    case True
    with 1 that show ?thesis by simp
  next
    case False
    with 2 that have "List.find (existsSync fs) (source_candidates api root cssPath) = Some p"
      by simp
    then show ?thesis by (rule find_Some_exists)
  qed
  from 1 2 3 show ?thesis by blast
qed

text \<open>
  On the example project: with the built file on disk the resolver returns it, although
  \<open>app/globals.css\<close> exists; with the built file removed it returns \<open>app/globals.css\<close>.
\<close>

lemma next_examples:
  "nextBuildPath example_api ''/proj'' ''app/layout.css'' = ''/proj/.next/static/css/app/layout.css''"
  "source_candidates example_api ''/proj'' ''app/layout.css''
     = [''/proj/app/globals.css'', ''/proj/app/global.css'', ''/proj/app/globals.scss'',
        ''/proj/app/global.scss'', ''/proj/app/globals.css'', ''/proj/app/global.scss'',
        ''/proj/styles/globals.css'', ''/proj/styles/global.scss'']"
  by code_simp+

lemma example_fs_exists:
  "existsSync example_fs ''/proj/.next/static/css/app/layout.css''"
  "existsSync example_fs ''/proj/app/globals.css''"
  "\<not> existsSync (example_fs(''/proj/.next/static/css/app/layout.css'' := None))
       ''/proj/.next/static/css/app/layout.css''"
  "existsSync (example_fs(''/proj/.next/static/css/app/layout.css'' := None))
       ''/proj/app/globals.css''"
  by (simp_all add: existsSync_def example_fs_def)

theorem findNextJSSource_build_file_first_witness:
  "findNextJSSource example_api example_fs ''/proj'' ''app/layout.css''
     = Some ''/proj/.next/static/css/app/layout.css''
   \<and> findNextJSSource example_api
         (example_fs(''/proj/.next/static/css/app/layout.css'' := None))
         ''/proj'' ''app/layout.css''
       = Some ''/proj/app/globals.css''"
  using findNextJSSource_build_file_first
          [of example_fs example_api "''/proj''" "''app/layout.css''"]
        findNextJSSource_build_file_first
          [of "example_fs(''/proj/.next/static/css/app/layout.css'' := None)"
              example_api "''/proj''" "''app/layout.css''"]
  by (simp add: next_examples example_fs_exists)

text \<open>
  The claim as the specification words it fails: the authored candidate
  \<open>app/globals.css\<close> exists, and the resolver still returns the path inside
  \<open>.next/static/css/\<close>, for the bare path and for the stylesheet URL.
\<close>

theorem build_file_returned_although_source_exists:
  "existsSync example_fs ''/proj/app/globals.css''
   \<and> ''/proj/app/globals.css'' \<in> set (source_candidates example_api ''/proj'' ''app/layout.css'')
   \<and> findNextJSSource example_api example_fs ''/proj'' ''app/layout.css''
       = Some ''/proj/.next/static/css/app/layout.css''
   \<and> url_resolve example_api example_fs example_resolver
         (Some ''http://localhost:3000/_next/static/css/app/layout.css'')
       = Some ''/proj/.next/static/css/app/layout.css''"
proof -
  have "findNextJSSource example_api example_fs ''/proj'' ''app/layout.css''
          = Some ''/proj/.next/static/css/app/layout.css''"
    by code_simp
  moreover have "url_resolve example_api example_fs example_resolver
         (Some ''http://localhost:3000/_next/static/css/app/layout.css'')
       = Some ''/proj/.next/static/css/app/layout.css''"
    by code_simp
  ultimately show ?thesis by (simp add: next_examples example_fs_exists)
qed

subsection \<open>Structured patchers\<close>

lemma patch_loop_counts:
  "patch_loop one root cs s f = Some (s', f', r) \<Longrightarrow> s' + f' = s + f + length cs"
proof (induction cs arbitrary: root s f)
  case Nil
  then show ?case by simp
next
  case (Cons c cs)
  show ?case
  proof (cases "one c root")
    case None
    with Cons.prems show ?thesis by simp
  next
    case (Some fr)
    obtain found root' where fr: "fr = (found, root')" by (cases fr)
    show ?thesis
    proof (cases found)
      case True
      with Cons.prems Some fr have "patch_loop one root' cs (Suc s) f = Some (s', f', r)" by simp
      from Cons.IH [OF this] show ?thesis by simp
    next
      case False
      with Cons.prems Some fr have "patch_loop one root' cs s (Suc f) = Some (s', f', r)" by simp
      from Cons.IH [OF this] show ?thesis by simp
    qed
  qed
qed

lemma patchMultiple_body_counts:
  "fst (fst (patchMultiple_body parse one api env aw stamp fs filePath changes))
   + snd (fst (patchMultiple_body parse one api env aw stamp fs filePath changes))
   = length changes"
  by (auto simp: patchMultiple_body_def split: option.splits prod.splits bool.splits
           dest: patch_loop_counts)

lemma patchMultiple_body_missing:
  "\<not> existsSync fs filePath \<Longrightarrow>
   patchMultiple_body parse one api env aw stamp fs filePath changes = ((0, length changes), fs)"
  by (simp add: patchMultiple_body_def)

lemma patchMultiple_body_parse_failure:
  "readFile fs filePath = Some content \<Longrightarrow> parse content = None \<Longrightarrow>
   patchMultiple_body parse one api env aw stamp fs filePath changes = ((0, length changes), fs)"
  by (simp add: patchMultiple_body_def)

lemma patchMultiple_body_write_error:
  "readFile fs filePath = Some content \<Longrightarrow> parse content = Some root \<Longrightarrow>
   patch_loop one (map (map_node Some) root) changes 0 0 = Some (s, f, root') \<Longrightarrow> 0 < s \<Longrightarrow>
   \<not> snd (patcher_writeFile api env aw stamp fs filePath (stringify env root')) \<Longrightarrow>
   fst (patchMultiple_body parse one api env aw stamp fs filePath changes) = (0, length changes)"
  by (auto simp: patchMultiple_body_def readFile_def existsSync_def split: prod.splits option.splits)

lemma patchMultiple_body_written:
  "snd (patchMultiple_body parse one api env aw stamp fs filePath changes) \<noteq> fs \<Longrightarrow>
   \<exists>content root s f root'.
      readFile fs filePath = Some content \<and> parse content = Some root
      \<and> patch_loop one (map (map_node Some) root) changes 0 0 = Some (s, f, root') \<and> 0 < s
      \<and> snd (patchMultiple_body parse one api env aw stamp fs filePath changes)
          = fst (patcher_writeFile api env aw stamp fs filePath (stringify env root'))"
  by (auto simp: patchMultiple_body_def split: option.splits prod.splits bool.splits if_splits)

lemma patchMultiple_body_all_writes_fail:
  assumes "\<forall>content. \<not> snd (patcher_writeFile api env aw stamp fs filePath content)"
  shows "fst (patchMultiple_body parse one api env aw stamp fs filePath changes)
           = (0, length changes)"
proof -
  have w: "patcher_writeFile api env aw stamp fs filePath content = (fs', True) \<Longrightarrow> False"
    for content fs'
    using assms by (metis snd_conv)
  have z: "patch_loop one root changes 0 0 = Some (0, f, r) \<Longrightarrow> f = length changes"
    for root f r
    by (drule patch_loop_counts) simp
  show ?thesis
    by (auto simp: patchMultiple_body_def split: option.splits prod.splits bool.splits
             dest: w z)
qed

lemma patchMultiple_body_outcomes:
  "patchMultiple_body parse one api env aw stamp fs filePath changes = ((0, length changes), fs)
   \<or> (\<exists>content.
         patcher_writeFile api env aw stamp fs filePath content
           = (snd (patchMultiple_body parse one api env aw stamp fs filePath changes), True)
         \<and> 0 < fst (fst (patchMultiple_body parse one api env aw stamp fs filePath changes)))
   \<or> (\<exists>content.
         patcher_writeFile api env aw stamp fs filePath content
           = (snd (patchMultiple_body parse one api env aw stamp fs filePath changes), False)
         \<and> fst (patchMultiple_body parse one api env aw stamp fs filePath changes)
             = (0, length changes))"
proof -
  have z: "patch_loop one root changes 0 0 = Some (0, f, r) \<Longrightarrow> f = length changes"
    for root f r
    by (drule patch_loop_counts) simp
  show ?thesis
    by (auto simp: patchMultiple_body_def split: option.splits prod.splits bool.splits
             dest: z)
qed

text \<open>
  Claim C9. For \<open>patchMultiple(path, changes)\<close> of either patcher (the model is total:
  every exception of the source ends in its \<open>catch\<close>, so the call never raises):
  \<^item> the returned counts add up to \<open>changes.length\<close>;
  \<^item> a missing file yields \<open>{success: 0, failed: changes.length}\<close> and leaves the disk
    as it was;
  \<^item> so does a file the parser rejects;
  \<^item> on a disk that refuses the write the result is
    \<open>{success: 0, failed: changes.length}\<close>;
  \<^item> the call ends in one of three ways: nothing was written and the result is
    \<open>{success: 0, failed: changes.length}\<close>; or the file was written and \<open>success\<close> is
    positive; or the write failed and the result is
    \<open>{success: 0, failed: changes.length}\<close>. So the file is written only when some change
    succeeded, and when every change fails the disk is as it was.
\<close>

theorem patchMultiple_counts_and_writes:
  assumes "(patchMultiple, parse) = (CSSPatcher_patchMultiple api env, postcss_parse env)
         \<or> (patchMultiple, parse) = (SCSSPatcher_patchMultiple api env, scss_parse env)"
  shows "fst (fst (patchMultiple aw stamp fs filePath changes))
           + snd (fst (patchMultiple aw stamp fs filePath changes)) = length changes
     \<and> (\<not> existsSync fs filePath \<longrightarrow>
           patchMultiple aw stamp fs filePath changes = ((0, length changes), fs))
     \<and> (\<forall>content. readFile fs filePath = Some content \<and> parse content = None \<longrightarrow>
           patchMultiple aw stamp fs filePath changes = ((0, length changes), fs))
     \<and> ((\<forall>content. \<not> snd (patcher_writeFile api env aw stamp fs filePath content)) \<longrightarrow>
           fst (patchMultiple aw stamp fs filePath changes) = (0, length changes))
     \<and> (patchMultiple aw stamp fs filePath changes = ((0, length changes), fs)
         \<or> (\<exists>content. patcher_writeFile api env aw stamp fs filePath content
                 = (snd (patchMultiple aw stamp fs filePath changes), True)
               \<and> 0 < fst (fst (patchMultiple aw stamp fs filePath changes)))
         \<or> (\<exists>content. patcher_writeFile api env aw stamp fs filePath content
                 = (snd (patchMultiple aw stamp fs filePath changes), False)
               \<and> fst (patchMultiple aw stamp fs filePath changes) = (0, length changes)))"
proof -
  from assms obtain one where
    P: "patchMultiple = patchMultiple_body parse one api env"
    by (auto simp: CSSPatcher_patchMultiple_def SCSSPatcher_patchMultiple_def)
  show ?thesis
    unfolding P
    using patchMultiple_body_counts [of parse one api env aw stamp fs filePath changes]
      patchMultiple_body_missing [of fs filePath parse one api env aw stamp changes]
      patchMultiple_body_parse_failure [of fs filePath _ parse one api env aw stamp changes]
      patchMultiple_body_all_writes_fail [of api env aw stamp fs filePath parse one changes]
      patchMultiple_body_outcomes [of parse one api env aw stamp fs filePath changes]
    by blast
qed

text \<open>
  Both patchers on the example project: two of three changes applied and written; a
  missing file; a file the parser rejects; a disk that refuses every write.
\<close>

lemma patch_example_run:
  "fst (CSSPatcher_patchMultiple example_api example_env True ''17'' example_fs
          ''/proj/app/globals.css'' example_changes) = (2, 1)"
  "snd (CSSPatcher_patchMultiple example_api example_env True ''17'' example_fs
          ''/proj/app/globals.css'' example_changes) ''/proj/app/globals.css''
     = Some (File ''a{color:blue !important;margin:0}'')"
  by code_simp+

lemma patch_example_facts:
  "\<not> existsSync example_fs ''/proj/app/nope.css''"
  "readFile example_fs ''/proj/src/menu.module.scss'' = Some ''.item { padding: 4px; }''"
  "scss_parse example_env ''.item { padding: 4px; }'' = None"
  "\<not> snd (patcher_writeFile example_api
            (example_env\<lparr>fs_writeFile := \<lambda>fs p c. (fs, False)\<rparr>) True ''17'' example_fs
            ''/proj/app/globals.css'' content)"
  by (simp_all add: existsSync_def readFile_def example_fs_def example_env_def
        example_parse_def patcher_writeFile_def)

theorem patchMultiple_counts_and_writes_witness:
  "fst (CSSPatcher_patchMultiple example_api example_env True ''17'' example_fs
          ''/proj/app/globals.css'' example_changes) = (2, 1)
   \<and> 2 + 1 = length example_changes
   \<and> CSSPatcher_patchMultiple example_api example_env True ''17'' example_fs
          ''/proj/app/nope.css'' example_changes = ((0, length example_changes), example_fs)
   \<and> SCSSPatcher_patchMultiple example_api example_env True ''17'' example_fs
          ''/proj/src/menu.module.scss'' example_changes
        = ((0, length example_changes), example_fs)
   \<and> fst (CSSPatcher_patchMultiple example_api
            (example_env\<lparr>fs_writeFile := \<lambda>fs p c. (fs, False)\<rparr>) True ''17'' example_fs
            ''/proj/app/globals.css'' example_changes) = (0, length example_changes)"
  using patchMultiple_counts_and_writes
          [of "CSSPatcher_patchMultiple example_api example_env" "postcss_parse example_env"
              example_api example_env True "''17''" example_fs "''/proj/app/globals.css''"
              example_changes]
        patchMultiple_counts_and_writes
          [of "CSSPatcher_patchMultiple example_api example_env" "postcss_parse example_env"
              example_api example_env True "''17''" example_fs "''/proj/app/nope.css''"
              example_changes]
        patchMultiple_counts_and_writes
          [of "SCSSPatcher_patchMultiple example_api example_env" "scss_parse example_env"
              example_api example_env True "''17''" example_fs "''/proj/src/menu.module.scss''"
              example_changes]
        patchMultiple_counts_and_writes
          [of "CSSPatcher_patchMultiple example_api
                 (example_env\<lparr>fs_writeFile := \<lambda>fs p c. (fs, False)\<rparr>)"
              "postcss_parse (example_env\<lparr>fs_writeFile := \<lambda>fs p c. (fs, False)\<rparr>)"
              example_api "example_env\<lparr>fs_writeFile := \<lambda>fs p c. (fs, False)\<rparr>"
              True "''17''" example_fs "''/proj/app/globals.css''" example_changes]
  by (simp add: patch_example_run patch_example_facts)

subsection \<open>Orchestrator\<close>


lemma shouldIgnore_true_keeps_guard:
  assumes "fst (shouldIgnore H now g k c)"
  shows "snd (shouldIgnore H now g k c) = g"
  using assms by (auto simp: shouldIgnore_def split: option.splits if_splits)

text \<open>
  The \<open>styleSheetChanged\<close> callback never reaches \<open>handleStyleSheetChange\<close>: with no
  method on the agent the call throws, and with the CDP client's method the text is
  \<open>null\<close>. The polling loop is the one place that calls the handler.
\<close>

lemma onStyleSheetChanged_never_handles:
  "onStyleSheetChanged None env ag sid = ag"
  "onStyleSheetChanged (Some CDPClient_getFreshStyleSheetText) env ag sid = ag"
  by (simp_all add: onStyleSheetChanged_def CDPClient_getFreshStyleSheetText_def js_or_null_def)

text \<open>
  The handler's own guard branch (agent.js 257-260) returns the agent as it is. The
  polling loop does not lead there: it enters the handler only after the guard has said
  that the text is not to be ignored.
\<close>

lemma handle_ignored_unchanged:
  assumes "fst (shouldIgnoreStyleSheet (md5 env) (date_now env) (loopGuard ag) sid newText)"
    and "newText \<noteq> []"
  shows "handleStyleSheetChange env ag sid (Some newText) = ag"
proof -
  from assms(1) have "snd (shouldIgnoreStyleSheet (md5 env) (date_now env) (loopGuard ag) sid newText)
      = loopGuard ag"
    by (simp add: shouldIgnoreStyleSheet_def shouldIgnore_true_keeps_guard)
  with assms show ?thesis
    by (simp add: handleStyleSheetChange_def incoming_text_def js_or_null_def Let_def)
qed




text \<open>
  Claim C10. \<open>getPreviousText\<close> returns none exactly when the id is not registered, its
  text was never stored, or the stored text is the empty string. A stylesheet whose
  stored text is \<open>""\<close> is therefore handled by \<open>handleStyleSheetChange\<close> as one without
  a previous snapshot: the new text is stored, and neither the differ nor a patcher runs.
\<close>

theorem getPreviousText_none:
  "(getPreviousText sheets sid = None \<longleftrightarrow>
      (sheets sid = None
       \<or> (\<exists>s. sheets sid = Some s \<and> (sheet_text s = None \<or> sheet_text s = Some []))))
   \<and> (\<forall>s newText.
         registry ag sid = Some s \<and> sheet_text s = Some [] \<and> newText \<noteq> []
         \<and> \<not> fst (shouldIgnoreStyleSheet (md5 env) (date_now env) (loopGuard ag) sid newText)
         \<longrightarrow> handleStyleSheetChange env ag sid (Some newText)
               = ag\<lparr>loopGuard := snd (shouldIgnoreStyleSheet (md5 env) (date_now env)
                                         (loopGuard ag) sid newText),
                     registry := updateText (date_now env) (registry ag) sid newText\<rparr>)"
  by (auto simp: getPreviousText_def js_or_null_def handleStyleSheetChange_def incoming_text_def Let_def
           split: option.splits)

text \<open>The four cases of the registry, and the call on a stylesheet whose stored text is empty.\<close>

theorem getPreviousText_none_witness:
  "getPreviousText (registry (example_agent (example_sheet None (Some []) None))) ''1'' = None
   \<and> getPreviousText (registry (example_agent (example_sheet None None None))) ''1'' = None
   \<and> getPreviousText (registry (example_agent (example_sheet None None None))) ''2'' = None
   \<and> getPreviousText (registry (example_agent (example_sheet None (Some ''x'') None))) ''1'' \<noteq> None
   \<and> trace (handleStyleSheetChange example_agent_env
               (example_agent (example_sheet None (Some []) None)) ''1'' (Some ''a{color:red}'')) = []
   \<and> getPreviousText
         (registry (handleStyleSheetChange example_agent_env
               (example_agent (example_sheet None (Some []) None)) ''1'' (Some ''a{color:red}''))) ''1''
       = Some ''a{color:red}''"
  using getPreviousText_none
          [of "registry (example_agent (example_sheet None (Some []) None))" "''1''"
              "example_agent (example_sheet None (Some []) None)" example_agent_env]
        getPreviousText_none
          [of "registry (example_agent (example_sheet None None None))" "''1''"
              "example_agent (example_sheet None (Some []) None)" example_agent_env]
        getPreviousText_none
          [of "registry (example_agent (example_sheet None None None))" "''2''"
              "example_agent (example_sheet None (Some []) None)" example_agent_env]
        getPreviousText_none
          [of "registry (example_agent (example_sheet None (Some ''x'') None))" "''1''"
              "example_agent (example_sheet None (Some []) None)" example_agent_env]
  by (simp add: example_agent_def example_sheet_def example_agent_env_def
        shouldIgnoreStyleSheet_def shouldIgnore_def new_LoopGuard_def updateText_def
        getPreviousText_def js_or_null_def)

lemma changed_in_no_old: "changed_in [] e = map add_change (snd e)"
proof -
  obtain key l where e: "e = (key, l)" by (cases e)
  have "concat (map (changed_at [] l) [0 ..< length l])
          = map (\<lambda>i. add_change (l ! i)) [0 ..< length l]"
    by (induction l rule: rev_induct) (simp_all add: changed_at_def nth_append)
  also have "\<dots> = map add_change (map ((!) l) [0 ..< length l])" by simp
  also have "\<dots> = map add_change l" by (simp only: map_nth)
  finally show ?thesis by (simp add: e changed_in_def declMap_get_def)
qed

lemma deleted_in_no_new: "deleted_in [] e = map delete_change (snd e)"
proof -
  obtain key l where e: "e = (key, l)" by (cases e)
  have "map (\<lambda>i. delete_change (l ! i)) [0 ..< length l]
          = map delete_change (map ((!) l) [0 ..< length l])" by simp
  also have "\<dots> = map delete_change l" by (simp only: map_nth)
  finally show ?thesis by (simp add: e deleted_in_def declMap_get_def)
qed

lemma changed_in_no_old_fun: "changed_in [] = (\<lambda>e. map add_change (snd e))"
  by (rule ext) (rule changed_in_no_old)

lemma deleted_in_no_new_fun: "deleted_in [] = (\<lambda>e. map delete_change (snd e))"
  by (rule ext) (rule deleted_in_no_new)

lemma findChanged_old_unparsed:
  assumes "parse oldCss = None"
  shows "findChangedDeclarations parse oldCss newCss
           = map add_change (concat (map snd (declMap (parseDeclarations parse newCss))))"
proof -
  from assms have "declMap (parseDeclarations parse oldCss) = []"
    by (simp add: parseDeclarations_def declMap_def)
  then show ?thesis
    by (simp add: findChangedDeclarations_def Let_def changed_in_no_old_fun map_concat comp_def)
qed

lemma findChanged_new_unparsed:
  assumes "parse newCss = None"
  shows "findChangedDeclarations parse oldCss newCss
           = map delete_change (concat (map snd (declMap (parseDeclarations parse oldCss))))"
proof -
  from assms have "declMap (parseDeclarations parse newCss) = []"
    by (simp add: parseDeclarations_def declMap_def)
  then show ?thesis
    by (simp add: findChangedDeclarations_def Let_def deleted_in_no_new_fun map_concat comp_def)
qed

lemma declMap_decls_Union: "(\<Union>e \<in> set (declMap ds). set (snd e)) = set ds"
  using declMap_decls [of ds] by (simp add: grouped_def)

text \<open>
  Claim C2, as the code has it. \<open>parseDeclarations\<close> catches the syntax error and
  returns no declarations, so the differ does not surface a parse failure and the cycle
  is not aborted:
  \<^item> when the old text does not parse, the diff is one add per declaration of the new text;
  \<^item> when the new text does not parse, the diff is one delete per declaration of the old
    text;
  \<^item> when neither parses, the diff is empty, and \<open>handleStyleSheetChange\<close> stores the new
    text in the registry (no patch is attempted).
\<close>

theorem parse_failure_is_not_surfaced:
  "(parse oldCss = None \<longrightarrow>
      findChangedDeclarations parse oldCss newCss
        = map add_change (concat (map snd (declMap (parseDeclarations parse newCss))))
      \<and> set (findChangedDeclarations parse oldCss newCss)
          = add_change ` set (parseDeclarations parse newCss))
   \<and> (parse newCss = None \<longrightarrow>
      findChangedDeclarations parse oldCss newCss
        = map delete_change (concat (map snd (declMap (parseDeclarations parse oldCss))))
      \<and> set (findChangedDeclarations parse oldCss newCss)
          = delete_change ` set (parseDeclarations parse oldCss))
   \<and> (parse oldCss = None \<and> parse newCss = None \<longrightarrow>
      findChangedDeclarations parse oldCss newCss = [])
   \<and> (postcss_parse (patching env) oldCss = None \<and> postcss_parse (patching env) newCss = None
       \<and> getPreviousText (registry ag) sid = Some oldCss \<and> oldCss \<noteq> newCss \<and> newCss \<noteq> []
       \<and> \<not> fst (shouldIgnoreStyleSheet (md5 env) (date_now env) (loopGuard ag) sid newCss)
       \<longrightarrow> handleStyleSheetChange env ag sid (Some newCss)
             = ag\<lparr>loopGuard := snd (shouldIgnoreStyleSheet (md5 env) (date_now env)
                                       (loopGuard ag) sid newCss),
                   trace := trace ag @ [DifferCall oldCss newCss],
                   registry := updateText (date_now env) (registry ag) sid newCss\<rparr>)"
proof -
  have a: "findChangedDeclarations parse oldCss newCss
             = map add_change (concat (map snd (declMap (parseDeclarations parse newCss))))
           \<and> set (findChangedDeclarations parse oldCss newCss)
               = add_change ` set (parseDeclarations parse newCss)"
    if "parse oldCss = None"
    using findChanged_old_unparsed [of parse oldCss newCss] that
    by (simp add: declMap_decls_Union)
  have b: "findChangedDeclarations parse oldCss newCss
             = map delete_change (concat (map snd (declMap (parseDeclarations parse oldCss))))
           \<and> set (findChangedDeclarations parse oldCss newCss)
               = delete_change ` set (parseDeclarations parse oldCss)"
    if "parse newCss = None"
    using findChanged_new_unparsed [of parse newCss oldCss] that
    by (simp add: declMap_decls_Union)
  have c: "findChangedDeclarations parse oldCss newCss = []"
    if "parse oldCss = None" "parse newCss = None" for parse
    using findChanged_old_unparsed [of parse oldCss newCss] that
    by (simp add: parseDeclarations_def declMap_def)
  have d: "handleStyleSheetChange env ag sid (Some newCss)
             = ag\<lparr>loopGuard := snd (shouldIgnoreStyleSheet (md5 env) (date_now env)
                                       (loopGuard ag) sid newCss),
                   trace := trace ag @ [DifferCall oldCss newCss],
                   registry := updateText (date_now env) (registry ag) sid newCss\<rparr>"
    if "postcss_parse (patching env) oldCss = None" "postcss_parse (patching env) newCss = None"
       "getPreviousText (registry ag) sid = Some oldCss" "oldCss \<noteq> newCss" "newCss \<noteq> []"
       "\<not> fst (shouldIgnoreStyleSheet (md5 env) (date_now env) (loopGuard ag) sid newCss)"
    using that c [OF that(1,2)]
    by (simp add: handleStyleSheetChange_def incoming_text_def js_or_null_def Let_def)
  from a b c d show ?thesis by blast
qed

text \<open>The theorem on texts the example parser rejects.\<close>

lemma unparsable_examples:
  "example_parse ''x{'' = None" "example_parse ''a{color:'' = None"
  "postcss_parse (patching example_agent_env) ''x{'' = None"
  "postcss_parse (patching example_agent_env) ''a{color:'' = None"
  by (simp_all add: example_parse_def example_agent_env_def example_env_def)

lemma unparsable_agent_facts:
  "getPreviousText (registry (example_agent (example_sheet None (Some ''x{'') None))) ''1''
     = Some ''x{''"
  "\<not> fst (shouldIgnoreStyleSheet (md5 example_agent_env) (date_now example_agent_env)
            (loopGuard (example_agent (example_sheet None (Some ''x{'') None))) ''1''
            ''a{color:'')"
  by (simp_all add: example_agent_def example_sheet_def getPreviousText_def js_or_null_def
        shouldIgnoreStyleSheet_def shouldIgnore_def new_LoopGuard_def)

theorem parse_failure_is_not_surfaced_witness:
  "findChangedDeclarations example_parse ''x{'' ''a{color:red}''
     = [add_change \<lparr>decl_selector = ''a'', decl_prop = ''color'', decl_value = ''red'',
                    decl_important = False, decl_start = (1, 2), decl_end = Some (1, 10)\<rparr>]
   \<and> findChangedDeclarations example_parse ''a{color:red}'' ''a{color:''
       = [delete_change \<lparr>decl_selector = ''a'', decl_prop = ''color'', decl_value = ''red'',
                         decl_important = False, decl_start = (1, 2), decl_end = Some (1, 10)\<rparr>]
   \<and> findChangedDeclarations example_parse ''x{'' ''a{color:'' = []
   \<and> trace (handleStyleSheetChange example_agent_env
               (example_agent (example_sheet None (Some ''x{'') None)) ''1'' (Some ''a{color:''))
       = [DifferCall ''x{'' ''a{color:'']
   \<and> getPreviousText
         (registry (handleStyleSheetChange example_agent_env
               (example_agent (example_sheet None (Some ''x{'') None)) ''1'' (Some ''a{color:'')))
         ''1''
       = Some ''a{color:''"
proof -
  let ?A = "example_agent (example_sheet None (Some ''x{'') None)"
  have 1: "findChangedDeclarations example_parse ''x{'' ''a{color:red}''
             = map add_change
                 (concat (map snd (declMap (parseDeclarations example_parse ''a{color:red}''))))"
    using parse_failure_is_not_surfaced
            [of example_parse "''x{''" "''a{color:red}''" example_agent_env ?A "''1''"]
          unparsable_examples(1)
    by blast
  have 2: "findChangedDeclarations example_parse ''a{color:red}'' ''a{color:''
             = map delete_change
                 (concat (map snd (declMap (parseDeclarations example_parse ''a{color:red}''))))"
    using parse_failure_is_not_surfaced
            [of example_parse "''a{color:red}''" "''a{color:''" example_agent_env ?A "''1''"]
          unparsable_examples(2)
    by blast
  note 3 = parse_failure_is_not_surfaced
            [of "postcss_parse (patching example_agent_env)" "''x{''" "''a{color:''"
                example_agent_env ?A "''1''"]
  from 3 unparsable_examples(3,4)
  have "findChangedDeclarations (postcss_parse (patching example_agent_env)) ''x{'' ''a{color:''
          = []"
    by blast
  then have 4: "findChangedDeclarations example_parse ''x{'' ''a{color:'' = []"
    by (simp add: example_agent_env_def example_env_def)
  have "''x{'' \<noteq> ''a{color:''" "''a{color:'' \<noteq> []" by simp_all
  with 3 unparsable_examples(3,4) unparsable_agent_facts
  have 5: "handleStyleSheetChange example_agent_env ?A ''1'' (Some ''a{color:'')
             = ?A\<lparr>loopGuard := snd (shouldIgnoreStyleSheet (md5 example_agent_env)
                                        (date_now example_agent_env) (loopGuard ?A) ''1''
                                        ''a{color:''),
                    trace := trace ?A @ [DifferCall ''x{'' ''a{color:''],
                    registry := updateText (date_now example_agent_env) (registry ?A) ''1''
                                  ''a{color:''\<rparr>"
    by blast
  have 6: "trace ?A = []"
    "getPreviousText (updateText (date_now example_agent_env) (registry ?A) ''1'' ''a{color:'') ''1''
       = Some ''a{color:''"
    by (simp_all add: example_agent_def example_sheet_def updateText_def getPreviousText_def
          js_or_null_def)
  from 1 2 4 5 6 show ?thesis
    by (simp add: ex_decls declMap_def decl_key_def)
qed

lemma unparsable_run:
  "trace (handleStyleSheetChange example_agent_env
             (example_agent (vite_sheet ''/proj/app/globals.css'')) ''1'' (Some ''a{color:''))
     = [DifferCall ''a{color:red}'' ''a{color:'',
        PatchCall ''/proj/app/globals.css'' False
          [\<lparr>ch_type = ''delete'', ch_selector = ''a'', ch_prop = ''color'',
            oldValue = Some ''red'', newValue = None, ch_important = False,
            ch_position = (1, 2), originalSelector = None\<rparr>]]"
  "getPreviousText
       (registry (handleStyleSheetChange example_agent_env
             (example_agent (vite_sheet ''/proj/app/globals.css'')) ''1'' (Some ''a{color:'')))
       ''1''
     = Some ''a{color:''"
  "disk (handleStyleSheetChange example_agent_env
             (example_agent (vite_sheet ''/proj/app/globals.css'')) ''1'' (Some ''a{color:''))
       ''/proj/app/globals.css''
     = Some (File ''a{}'')"
  by code_simp+

text \<open>
  The claim as the specification words it fails: the new text \<open>a{color:\<close> does not
  parse, and the cycle goes on. The differ reports the declaration of the old text as
  deleted, the patcher is called on the source file and removes it, and the registry
  stores the unparsable text.
\<close>

theorem unparsable_new_text_is_patched_and_stored:
  "postcss_parse (patching example_agent_env) ''a{color:'' = None
   \<and> trace (handleStyleSheetChange example_agent_env
             (example_agent (vite_sheet ''/proj/app/globals.css'')) ''1'' (Some ''a{color:''))
     = [DifferCall ''a{color:red}'' ''a{color:'',
        PatchCall ''/proj/app/globals.css'' False
          [\<lparr>ch_type = ''delete'', ch_selector = ''a'', ch_prop = ''color'',
            oldValue = Some ''red'', newValue = None, ch_important = False,
            ch_position = (1, 2), originalSelector = None\<rparr>]]
   \<and> getPreviousText
       (registry (handleStyleSheetChange example_agent_env
             (example_agent (vite_sheet ''/proj/app/globals.css'')) ''1'' (Some ''a{color:'')))
       ''1''
     = Some ''a{color:''
   \<and> disk (handleStyleSheetChange example_agent_env
             (example_agent (vite_sheet ''/proj/app/globals.css'')) ''1'' (Some ''a{color:''))
       ''/proj/app/globals.css''
     = Some (File ''a{}'')"
  by (simp add: unparsable_examples unparsable_run)

lemma patch_task_fields:
  "trace (patch_task env ag sid t p s cs) = trace ag @ [PatchCall p s cs]"
  "registry (patch_task env ag sid t p s cs) = registry ag"
  "selectorResolver (patch_task env ag sid t p s cs) = selectorResolver ag"
  by (simp_all add: patch_task_def split: prod.splits)




lemma handleCSSModuleChanges_resolved:
  assumes "handleCSSModuleChanges env ag sid chs t = (True, ag')"
  shows "fst (group_by_module env (disk ag) (selectorResolver ag) [] chs) \<noteq> []"
  using assms
  by (auto simp: handleCSSModuleChanges_def Let_def split: prod.splits if_splits)


lemma first_with_selector_mem:
  "fst (first_with_selector fs wanted cname fc files) = Some p \<Longrightarrow> p \<in> set files"
proof (induction files arbitrary: fc)
  case Nil
  then show ?case by simp
next
  case (Cons f files)
  show ?case
  proof (cases "wanted f")
    case False
    with Cons.prems have "fst (first_with_selector fs wanted cname fc files) = Some p" by simp
    from Cons.IH [OF this] show ?thesis by simp
  next
    case True
    obtain h fc' where h: "hasSelector fs fc f cname = (h, fc')"
      by (cases "hasSelector fs fc f cname")
    show ?thesis
    proof (cases h)
      case True
      with Cons.prems \<open>wanted f\<close> h show ?thesis by simp
    next
      case False
      with Cons.prems \<open>wanted f\<close> h
      have "fst (first_with_selector fs wanted cname fc' files) = Some p" by simp
      from Cons.IH [OF this] show ?thesis by simp
    qed
  qed
qed

lemma selector_resolve_paths:
  assumes r: "selector_resolve api fs root sr sel = (res, sr')"
    and found: "\<forall>comp p. p \<in> set (findModuleFiles api fs root comp) \<longrightarrow> Q p"
    and cached: "\<forall>sel p orig. sr_cache sr sel = Some (p, orig) \<longrightarrow> Q p"
  shows "(\<forall>p orig. res = Some (p, orig) \<longrightarrow> Q p)
       \<and> (\<forall>sel p orig. sr_cache sr' sel = Some (p, orig) \<longrightarrow> Q p)"
proof (cases "sr_cache sr sel")
  case (Some c)
  with r have "res = Some c" "sr' = sr" by (simp_all add: selector_resolve_def)
  with Some cached show ?thesis by (cases c) auto
next
  case None
  show ?thesis
  proof (cases "parseCSSModuleSelector sel")
    case np: None
    with r None have "res = None" "sr' = sr" by (simp_all add: selector_resolve_def)
    with cached show ?thesis by auto
  next
    case (Some parsed)
    let ?files = "findModuleFiles api fs root (component parsed)"
    let ?same = "\<lambda>filePath.
                   toLowerCase (remove_first_lit ''.module.css''
                                  (path_basename api filePath ''.module.scss''))
                     = toLowerCase (component parsed)"
    obtain r1 fc1 where f1: "first_with_selector fs ?same (className parsed)
                               (sr_fileCache sr) ?files = (r1, fc1)"
      by (cases "first_with_selector fs ?same (className parsed) (sr_fileCache sr) ?files")
    obtain r2 fc2 where f2: "first_with_selector fs (\<lambda>filePath. True) (className parsed)
                               fc1 ?files = (r2, fc2)"
      by (cases "first_with_selector fs (\<lambda>filePath. True) (className parsed) fc1 ?files")
    have q1: "Q p" if "r1 = Some p" for p
      using first_with_selector_mem [of fs ?same "className parsed" "sr_fileCache sr" ?files p]
        f1 that found by simp
    have q2: "Q p" if "r2 = Some p" for p
      using first_with_selector_mem [of fs "\<lambda>filePath. True" "className parsed" fc1 ?files p]
        f2 that found by simp
    show ?thesis
    proof (cases r1)
      case s1: (Some p1)
      with r None Some f1 have "res = Some (p1, parsed_originalSelector parsed)"
        "sr_cache sr' = (sr_cache sr)(sel \<mapsto> (p1, parsed_originalSelector parsed))"
        by (auto simp: selector_resolve_def Let_def)
      with q1 [OF s1] cached show ?thesis by (auto split: if_splits)
    next
      case n1: None
      show ?thesis
      proof (cases r2)
        case s2: (Some p2)
        with r None Some f1 f2 n1 have "res = Some (p2, parsed_originalSelector parsed)"
          "sr_cache sr' = (sr_cache sr)(sel \<mapsto> (p2, parsed_originalSelector parsed))"
          by (auto simp: selector_resolve_def Let_def)
        with q2 [OF s2] cached show ?thesis by (auto split: if_splits)
      next
        case n2: None
        with r None Some f1 f2 n1 have "res = None" "sr_cache sr' = sr_cache sr"
          by (auto simp: selector_resolve_def Let_def)
        with cached show ?thesis by auto
      qed
    qed
  qed
qed


lemma group_by_module_cache:
  assumes found: "\<forall>comp p. p \<in> set (findModuleFiles (node env) fs
                                        (projectRoot (urlResolver env)) comp) \<longrightarrow> Q p"
    and cached: "\<forall>sel p orig. sr_cache sr sel = Some (p, orig) \<longrightarrow> Q p"
  shows "\<forall>sel p orig. sr_cache (snd (group_by_module env fs sr acc cs)) sel = Some (p, orig)
           \<longrightarrow> Q p"
  using cached
proof (induction cs arbitrary: sr acc)
  case Nil
  then show ?case by simp
next
  case (Cons c cs)
  show ?case
  proof (cases "ch_type c \<noteq> ''change'' \<and> ch_type c \<noteq> ''add'' \<and> ch_type c \<noteq> ''delete''")
    case True
    have eq: "group_by_module env fs sr acc (c # cs) = group_by_module env fs sr acc cs"
      by (simp only: group_by_module.simps if_P [OF True])
    show ?thesis unfolding eq using Cons.prems by (rule Cons.IH)
  next
    case False
    obtain res sr' where r: "selector_resolve (node env) fs (projectRoot (urlResolver env)) sr
                               (ch_selector c) = (res, sr')"
      by (cases "selector_resolve (node env) fs (projectRoot (urlResolver env)) sr (ch_selector c)")
    from selector_resolve_paths [OF r found Cons.prems]
    have cached': "\<forall>sel p orig. sr_cache sr' sel = Some (p, orig) \<longrightarrow> Q p" by blast
    show ?thesis
    proof (cases res)
      case None
      have eq: "group_by_module env fs sr acc (c # cs) = group_by_module env fs sr' acc cs"
        by (simp only: group_by_module.simps if_not_P [OF False] r None prod.case option.case)
      show ?thesis unfolding eq using cached' by (rule Cons.IH)
    next
      case (Some fo)
      obtain filePath orig where fo: "fo = (filePath, orig)" by (cases fo)
      let ?acc = "changesByFile_push filePath
                    (c\<lparr>ch_selector := orig, originalSelector := Some (ch_selector c)\<rparr>) acc"
      have eq: "group_by_module env fs sr acc (c # cs) = group_by_module env fs sr' ?acc cs"
        by (simp only: group_by_module.simps if_not_P [OF False] r Some fo prod.case option.case)
      show ?thesis unfolding eq using cached' by (rule Cons.IH)
    qed
  qed
qed

text \<open>
  What \<open>searchFiles\<close> returns: a file whose name is one of the patterns, in a directory
  reached from the start through fewer names than there are levels, none of them an
  excluded one.
\<close>

lemma searchFiles_chain:
  "p \<in> set (searchFiles api fs n dir patterns) \<Longrightarrow>
   \<exists>es entry. length es < n \<and> set es \<inter> set excludeDirs = {} \<and> entry \<in> set patterns
      \<and> p = path_join api [join_chain api dir es, entry]"
proof (induction n arbitrary: dir)
  case 0
  then show ?case by simp
next
  case (Suc n)
  let ?visit = "\<lambda>entry.
      case fs (path_join api [dir, entry]) of
        None \<Rightarrow> []
      | Some (File c) \<Rightarrow>
          (if entry \<in> set patterns then [path_join api [dir, entry]] else [])
      | Some (Dir sub) \<Rightarrow>
          (if entry \<in> set excludeDirs then []
           else searchFiles api fs n (path_join api [dir, entry]) patterns)"
  have listed: "\<exists>entries. searchFiles api fs (Suc n) dir patterns = concat (map ?visit entries)"
  proof (cases "fs dir")
    case None
    then have "searchFiles api fs (Suc n) dir patterns = concat (map ?visit [])" by simp
    then show ?thesis by blast
  next
    case (Some x)
    show ?thesis
    proof (cases x)
      case (File c)
      with Some have "searchFiles api fs (Suc n) dir patterns = concat (map ?visit [])" by simp
      then show ?thesis by blast
    next
      case (Dir entries)
      with Some have "searchFiles api fs (Suc n) dir patterns = concat (map ?visit entries)"
        by simp
      then show ?thesis by blast
    qed
  qed
  then obtain entries
    where "searchFiles api fs (Suc n) dir patterns = concat (map ?visit entries)" ..
  with Suc.prems have "p \<in> set (concat (map ?visit entries))" by (simp only:)
  then obtain entry where p: "p \<in> set (?visit entry)"
    unfolding set_concat set_map by blast
  show ?case
  proof (cases "fs (path_join api [dir, entry])")
    case None
    with p show ?thesis by simp
  next
    case (Some x)
    show ?thesis
    proof (cases x)
      case (File c)
      with p Some have "entry \<in> set patterns" "p = path_join api [dir, entry]"
        by (auto split: if_splits)
      then have "length ([]::string list) < Suc n \<and> set [] \<inter> set excludeDirs = {}
                 \<and> entry \<in> set patterns \<and> p = path_join api [join_chain api dir [], entry]"
        by simp
      then show ?thesis by blast
    next
      case (Dir sub)
      with p Some have ex: "entry \<notin> set excludeDirs"
        and "p \<in> set (searchFiles api fs n (path_join api [dir, entry]) patterns)"
        by (auto split: if_splits)
      from Suc.IH [OF this(2)] obtain es name
        where es: "length es < n" "set es \<inter> set excludeDirs = {}" "name \<in> set patterns"
          "p = path_join api [join_chain api (path_join api [dir, entry]) es, name]"
        by blast
      from es ex have "length (entry # es) < Suc n \<and> set (entry # es) \<inter> set excludeDirs = {}
                 \<and> name \<in> set patterns
                 \<and> p = path_join api [join_chain api dir (entry # es), name]"
        by simp
      then show ?thesis by blast
    qed
  qed
qed

lemma findModuleFiles_module_path:
  assumes "p \<in> set (findModuleFiles api fs root cn)"
  shows "module_path api root p"
proof -
  from assms have "p \<in> set (searchFiles api fs 11 root
                              [cn @ ''.module.scss'', cn @ ''.module.css''])"
    by (simp add: findModuleFiles_def)
  from searchFiles_chain [OF this] obtain es entry
    where "length es < 11" "set es \<inter> set excludeDirs = {}"
      "entry \<in> set [cn @ ''.module.scss'', cn @ ''.module.css'']"
      "p = path_join api [join_chain api root es, entry]"
    by blast
  then have "length es \<le> 10 \<and> set es \<inter> set excludeDirs = {}
        \<and> (p = path_join api [join_chain api root es, cn @ ''.module.scss'']
            \<or> p = path_join api [join_chain api root es, cn @ ''.module.css''])"
    by auto
  then show ?thesis unfolding module_path_def by blast
qed

text \<open>
  With \<open>join\<close> putting a slash between its arguments, a module path is the root, the
  names and the file name with slashes between them.
\<close>

lemma join_chain_slash:
  assumes "path_join api = join_slash"
  shows "join_chain api root es = foldl (\<lambda>d e. d @ ''/'' @ e) root es"
  using assms by (induction es arbitrary: root) simp_all

lemma module_path_slash:
  assumes "path_join api = join_slash" and "module_path api root p"
  shows "\<exists>es cn. length es \<le> 10 \<and> set es \<inter> set excludeDirs = {}
           \<and> (p = foldl (\<lambda>d e. d @ ''/'' @ e) root es @ ''/'' @ cn @ ''.module.scss''
               \<or> p = foldl (\<lambda>d e. d @ ''/'' @ e) root es @ ''/'' @ cn @ ''.module.css'')"
proof -
  from assms(2) obtain es cn
    where "length es \<le> 10" "set es \<inter> set excludeDirs = {}"
      "p = path_join api [join_chain api root es, cn @ ''.module.scss'']
       \<or> p = path_join api [join_chain api root es, cn @ ''.module.css'']"
    unfolding module_path_def by blast
  then have "length es \<le> 10 \<and> set es \<inter> set excludeDirs = {}
           \<and> (p = foldl (\<lambda>d e. d @ ''/'' @ e) root es @ ''/'' @ cn @ ''.module.scss''
               \<or> p = foldl (\<lambda>d e. d @ ''/'' @ e) root es @ ''/'' @ cn @ ''.module.css'')"
    by (simp add: assms(1) join_chain_slash [OF assms(1)])
  then show ?thesis by blast
qed


lemma fold_patch_selectorResolver:
  "selectorResolver (foldl (\<lambda>a e. patch_task env a sid t (fst e) (f (fst e)) (snd e)) ag m)
     = selectorResolver ag"
  by (induction m arbitrary: ag) (simp_all add: patch_task_fields)

lemma handleCSSModuleChanges_selectorResolver:
  "selectorResolver (snd (handleCSSModuleChanges env ag sid chs t))
     = snd (group_by_module env (disk ag) (selectorResolver ag) [] chs)"
  by (simp add: handleCSSModuleChanges_def fold_patch_selectorResolver Let_def split: prod.splits)

lemma patch_resolved_selectorResolver:
  "selectorResolver (patch_resolved env ag sid t chs lp) = selectorResolver ag"
  by (simp add: patch_resolved_def patch_task_fields Let_def split: option.splits)

lemma handleCSSModuleChanges_cache:
  assumes "cache_outside env ag"
  shows "cache_outside env (snd (handleCSSModuleChanges env ag sid chs t))"
proof -
  have 1: "\<forall>comp q. q \<in> set (findModuleFiles (node env) (disk ag)
                                      (projectRoot (urlResolver env)) comp)
             \<longrightarrow> module_path (node env) (projectRoot (urlResolver env)) q"
    by (simp add: findModuleFiles_module_path)
  from assms
  have 2: "\<forall>sel q orig. sr_cache (selectorResolver ag) sel = Some (q, orig)
             \<longrightarrow> module_path (node env) (projectRoot (urlResolver env)) q"
    unfolding cache_outside_def .
  from group_by_module_cache [OF 1 2, of "[]" chs] show ?thesis
    unfolding cache_outside_def handleCSSModuleChanges_selectorResolver .
qed

lemma cache_outside_cong:
  "selectorResolver a = selectorResolver b \<Longrightarrow> cache_outside env a = cache_outside env b"
  by (simp add: cache_outside_def)

lemma handleStyleSheetChange_cache:
  assumes c: "cache_outside env ag"
  shows "cache_outside env (handleStyleSheetChange env ag sid freshText)"
proof -
  have m: "cache_outside env a'"
    if "handleCSSModuleChanges env a sid chs t = (b, a')"
      and "selectorResolver a = selectorResolver ag" for a a' b chs t
  proof -
    from c that(2) have "cache_outside env a" by (simp add: cache_outside_def)
    from handleCSSModuleChanges_cache [OF this, of sid chs t] that(1) show ?thesis by simp
  qed
  have k: "cache_outside env a" if "selectorResolver a = selectorResolver ag" for a
    using c that by (simp add: cache_outside_def)
  have r: "cache_outside env (patch_resolved env a sid t chs lp)"
    if "cache_outside env a" for a t chs lp
    using that by (simp add: cache_outside_def patch_resolved_selectorResolver)
  have u: "cache_outside env (a\<lparr>registry := reg\<rparr>)" if "cache_outside env a" for a reg
    using that by (simp add: cache_outside_def)
  show ?thesis
  proof (cases "incoming_text env sid freshText")
    case None
    with c show ?thesis by (simp add: handleStyleSheetChange_def)
  next
    case (Some t)
    let ?guard = "shouldIgnoreStyleSheet (md5 env) (date_now env) (loopGuard ag) sid t"
    let ?ag1 = "ag\<lparr>loopGuard := snd ?guard\<rparr>"
    have k1: "cache_outside env ?ag1" by (rule k) simp
    show ?thesis
    proof (cases "fst ?guard")
      case True
      with Some k1 show ?thesis by (simp add: handleStyleSheetChange_def Let_def)
    next
      case ng: False
      show ?thesis
      proof (cases "getPreviousText (registry ag) sid")
        case None
        with Some ng u [OF k1] show ?thesis by (simp add: handleStyleSheetChange_def Let_def)
      next
        case old: (Some old)
        show ?thesis
        proof (cases "old = t")
          case True
          with Some ng old u [OF k1] show ?thesis
            by (simp add: handleStyleSheetChange_def Let_def)
        next
          case diff: False
          let ?chs = "findChangedDeclarations (postcss_parse (patching env)) old t"
          let ?ag2 = "?ag1\<lparr>trace := trace ?ag1 @ [DifferCall old t]\<rparr>"
          have k2: "cache_outside env ?ag2" by (rule k) simp
          show ?thesis
          proof (cases "?chs = []")
            case True
            with Some ng old diff u [OF k2] show ?thesis
              by (simp add: handleStyleSheetChange_def Let_def)
          next
            case chs: False
            obtain b ag3 where h: "handleCSSModuleChanges env ?ag2 sid ?chs t = (b, ag3)"
              by (cases "handleCSSModuleChanges env ?ag2 sid ?chs t")
            have k3: "cache_outside env ag3" by (rule m [OF h]) simp
            show ?thesis
            proof (cases "sheet_localPath env ?ag2 sid")
              case None
              with Some ng old diff chs h k3 u [OF k3] show ?thesis
                by (cases b) (simp_all add: handleStyleSheetChange_def Let_def)
            next
              case lp: (Some lp)
              with Some ng old diff chs h k3 r [OF k3] r [OF k2] show ?thesis
                by (cases b) (simp_all add: handleStyleSheetChange_def Let_def)
            qed
          qed
        qed
      qed
    qed
  qed
qed




lemma poll_sheet_cache:
  assumes "cache_outside env ag"
  shows "cache_outside env (poll_sheet env ag sid oldText freshSheets)"
proof -
  have "cache_outside env (ag\<lparr>loopGuard := g\<rparr>)" for g
    using assms by (simp add: cache_outside_def)
  from handleStyleSheetChange_cache [OF this] assms show ?thesis
    by (simp add: poll_sheet_def Let_def cache_outside_def split: option.splits)
qed









end
